theory Spec2Isabelle
  imports Complex_Main "HOL-Library.Sublist"
begin

unbundle bit_operations_syntax

section \<open>ROM decoder (rom/decoder.js)\<close>

text \<open>
  A vector coordinate is the JavaScript triple \<open>[x, y, beam]\<close>. The decoder only ever
  produces integers, so the three fields are modelled as unbounded integers.
\<close>

type_synonym VectorCoord = "int \<times> int \<times> int"

definition CDC_CHAR_MAX_COORD :: int where
  "CDC_CHAR_MAX_COORD = 6"

text \<open>
  The local variables of \<open>binaryToVector\<close>: the running position, beam and directions,
  the output array \<open>vectorData\<close>, and the positions reported through \<open>console.warn\<close>.
\<close>

record decoder_state =
  currentX :: int
  currentY :: int
  beamIntensity :: int
  horizontalDirection :: int
  verticalDirection :: int
  vectorData :: "VectorCoord list"
  warnings :: "(int \<times> int) list"

definition initial_state :: decoder_state where
  "initial_state =
     \<lparr> currentX = 0, currentY = 0, beamIntensity = 0,
       horizontalDirection = 1, verticalDirection = 1,
       vectorData = [], warnings = [] \<rparr>"

text \<open>\<open>Boolean((binary >> n) & 1)\<close> on an integer control word.\<close>

definition flag :: "int \<Rightarrow> nat \<Rightarrow> bool" where
  "flag binary n = ((drop_bit n binary) AND 1 \<noteq> 0)"

text \<open>The vertical, horizontal and beam parts of one loop iteration, in source order.\<close>

definition vertical_move :: "int \<Rightarrow> decoder_state \<Rightarrow> decoder_state" where
  "vertical_move binary st =
     (let V1 = flag binary 4; V2 = flag binary 3 in
      if V1 \<and> V2 then st\<lparr>verticalDirection := - verticalDirection st\<rparr>
      else if V1 then st\<lparr>currentY := currentY st + verticalDirection st\<rparr>
      else if V2 then st\<lparr>currentY := currentY st + 2 * verticalDirection st\<rparr>
      else st)"

definition horizontal_move :: "int \<Rightarrow> decoder_state \<Rightarrow> decoder_state" where
  "horizontal_move binary st =
     (let H1 = flag binary 2; H2 = flag binary 1 in
      if H1 \<and> H2 then st\<lparr>horizontalDirection := - horizontalDirection st\<rparr>
      else if H1 then st\<lparr>currentX := currentX st + horizontalDirection st\<rparr>
      else if H2 then st\<lparr>currentX := currentX st + 2 * horizontalDirection st\<rparr>
      else st)"

definition beam_toggle :: "int \<Rightarrow> decoder_state \<Rightarrow> decoder_state" where
  "beam_toggle binary st =
     (let U = flag binary 0 in
      if U then st\<lparr>beamIntensity := (if beamIntensity st \<noteq> 0 then 0 else 1)\<rparr>
      else st)"

definition within_bounds :: "decoder_state \<Rightarrow> bool" where
  "within_bounds st \<longleftrightarrow>
     currentX st \<ge> 0 \<and> currentX st \<le> CDC_CHAR_MAX_COORD \<and>
     currentY st \<ge> 0 \<and> currentY st \<le> CDC_CHAR_MAX_COORD"

definition push_or_warn :: "decoder_state \<Rightarrow> decoder_state" where
  "push_or_warn st =
     (if within_bounds st
      then st\<lparr>vectorData := vectorData st @ [(currentX st, currentY st, beamIntensity st)]\<rparr>
      else st\<lparr>warnings := warnings st @ [(currentX st, currentY st)]\<rparr>)"

text \<open>The state update of one row, before the bounds check.\<close>

definition advance :: "int \<Rightarrow> decoder_state \<Rightarrow> decoder_state" where
  "advance binary st = beam_toggle binary (horizontal_move binary (vertical_move binary st))"

definition decode_row :: "decoder_state \<Rightarrow> int \<Rightarrow> decoder_state" where
  "decode_row st binary = push_or_warn (advance binary st)"

primrec decode_loop :: "decoder_state \<Rightarrow> int list \<Rightarrow> decoder_state" where
  "decode_loop st [] = st"
| "decode_loop st (binary # rest) = decode_loop (decode_row st binary) rest"

definition binaryToVector :: "int list \<Rightarrow> VectorCoord list" where
  "binaryToVector binaryData =
     (if binaryData = [] then [] else vectorData (decode_loop initial_state binaryData))"

subsection \<open>Vector simplifier\<close>

text \<open>\<open>Array.prototype.slice(start, end)\<close>, negative arguments counted from the end.\<close>

definition slice :: "'a list \<Rightarrow> int \<Rightarrow> int \<Rightarrow> 'a list" where
  "slice xs start end' =
     (let n = int (length xs);
          k = (if start < 0 then max (n + start) 0 else min start n);
          f = (if end' < 0 then max (n + end') 0 else min end' n)
      in take (nat (f - k)) (drop (nat k) xs))"

text \<open>The first loop of \<open>trimBeamOff\<close>: the index of the first entry with beam 1, else -1.\<close>

primrec first_on_from :: "nat \<Rightarrow> VectorCoord list \<Rightarrow> int" where
  "first_on_from i [] = - 1"
| "first_on_from i (v # vs) = (if snd (snd v) = 1 then int i else first_on_from (Suc i) vs)"

text \<open>The second loop: downwards from index \<open>n - 1\<close>, the first entry with beam 1, else -1.\<close>

primrec last_on_below :: "VectorCoord list \<Rightarrow> nat \<Rightarrow> int" where
  "last_on_below vd 0 = - 1"
| "last_on_below vd (Suc i) = (if snd (snd (vd ! i)) = 1 then int i else last_on_below vd i)"

definition trimBeamOff :: "VectorCoord list \<Rightarrow> VectorCoord list" where
  "trimBeamOff vd =
     (if vd = [] then []
      else let firstOn = first_on_from 0 vd in
        if firstOn = - 1 then []
        else let lastOn = last_on_below vd (length vd) in
          slice vd firstOn (lastOn + 1))"

text \<open>
  The loop of \<open>deduplicateAdjacent\<close>: \<open>result\<close> is the array built so far, \<open>prev\<close> its
  last element (the source's \<open>curr\<close> is \<open>current\<close> here).
\<close>

primrec dedup_loop :: "VectorCoord list \<Rightarrow> VectorCoord list \<Rightarrow> VectorCoord list" where
  "dedup_loop result [] = result"
| "dedup_loop result (current # rest) =
     (let prev = last result in
      if fst current \<noteq> fst prev \<or> fst (snd current) \<noteq> fst (snd prev)
         \<or> snd (snd current) \<noteq> snd (snd prev)
      then dedup_loop (result @ [current]) rest
      else dedup_loop result rest)"

definition deduplicateAdjacent :: "VectorCoord list \<Rightarrow> VectorCoord list" where
  "deduplicateAdjacent vd = (case vd of [] \<Rightarrow> [] | v0 # rest \<Rightarrow> dedup_loop [v0] rest)"

definition simplifyVector :: "VectorCoord list \<Rightarrow> VectorCoord list" where
  "simplifyVector vd = deduplicateAdjacent vd"

text \<open>A sample whose beam field is not 1.\<close>

definition beam_off :: "VectorCoord \<Rightarrow> bool" where
  "beam_off v \<longleftrightarrow> snd (snd v) \<noteq> 1"

subsection \<open>Observers of the decoder loop\<close>

text \<open>
  The running \<open>[currentX, currentY, beamIntensity]\<close> after every row of the loop, whether
  or not the row passes the bounds check.
\<close>

definition sample :: "decoder_state \<Rightarrow> VectorCoord" where
  "sample st = (currentX st, currentY st, beamIntensity st)"

primrec trace :: "decoder_state \<Rightarrow> int list \<Rightarrow> VectorCoord list" where
  "trace st [] = []"
| "trace st (binary # rest) = sample (advance binary st) # trace (advance binary st) rest"

definition in_range :: "VectorCoord \<Rightarrow> bool" where
  "in_range v \<longleftrightarrow>
     fst v \<ge> 0 \<and> fst v \<le> CDC_CHAR_MAX_COORD \<and>
     fst (snd v) \<ge> 0 \<and> fst (snd v) \<le> CDC_CHAR_MAX_COORD"

text \<open>
  The displacement \<open>(dx, dy)\<close> that each row adds to the running position, computed from
  the control words and the two direction variables alone.
\<close>

definition axis_delta :: "bool \<Rightarrow> bool \<Rightarrow> int \<Rightarrow> int" where
  "axis_delta f1 f2 direction =
     (if f1 \<and> f2 then 0 else if f1 then direction else if f2 then 2 * direction else 0)"

definition axis_direction :: "bool \<Rightarrow> bool \<Rightarrow> int \<Rightarrow> int" where
  "axis_direction f1 f2 direction = (if f1 \<and> f2 then - direction else direction)"

primrec row_deltas :: "int \<Rightarrow> int \<Rightarrow> int list \<Rightarrow> (int \<times> int) list" where
  "row_deltas hdir vdir [] = []"
| "row_deltas hdir vdir (binary # rest) =
     (axis_delta (flag binary 2) (flag binary 1) hdir,
      axis_delta (flag binary 4) (flag binary 3) vdir)
     # row_deltas (axis_direction (flag binary 2) (flag binary 1) hdir)
                  (axis_direction (flag binary 4) (flag binary 3) vdir) rest"

subsection \<open>The decoding algorithm as the specification words it\<close>

text \<open>
  Section 4.1 of the specification: a running position, a running beam state (a
  truth value), two direction signs; per row the vertical rule, the same rule for the
  horizontal bits, the beam toggle, then the sample of the row, which is not emitted
  when the position is outside [0,6] on either axis.
\<close>

record spec_state =
  pos_x :: int
  pos_y :: int
  beam_on :: bool
  h_sign :: int
  v_sign :: int

definition spec_initial :: spec_state where
  "spec_initial = \<lparr> pos_x = 0, pos_y = 0, beam_on = False, h_sign = 1, v_sign = 1 \<rparr>"

fun spec_axis_rule :: "bool \<Rightarrow> bool \<Rightarrow> int \<times> int \<Rightarrow> int \<times> int" where
  "spec_axis_rule True True (p, s) = (p, - s)"
| "spec_axis_rule True False (p, s) = (p + s, s)"
| "spec_axis_rule False True (p, s) = (p + 2 * s, s)"
| "spec_axis_rule False False (p, s) = (p, s)"

definition spec_row :: "spec_state \<Rightarrow> int \<Rightarrow> spec_state" where
  "spec_row sp w =
     (case spec_axis_rule (bit w 4) (bit w 3) (pos_y sp, v_sign sp) of (y', vs') \<Rightarrow>
      case spec_axis_rule (bit w 2) (bit w 1) (pos_x sp, h_sign sp) of (x', hs') \<Rightarrow>
        \<lparr> pos_x = x', pos_y = y',
          beam_on = (if bit w 0 then \<not> beam_on sp else beam_on sp),
          h_sign = hs', v_sign = vs' \<rparr>)"

definition spec_emit :: "spec_state \<Rightarrow> VectorCoord list" where
  "spec_emit sp =
     (if pos_x sp \<in> {0..6} \<and> pos_y sp \<in> {0..6}
      then [(pos_x sp, pos_y sp, if beam_on sp then 1 else 0)] else [])"

fun spec_decode_from :: "spec_state \<Rightarrow> int list \<Rightarrow> VectorCoord list" where
  "spec_decode_from sp [] = []"
| "spec_decode_from sp (w # ws) = spec_emit (spec_row sp w) @ spec_decode_from (spec_row sp w) ws"

definition spec_decode :: "int list \<Rightarrow> VectorCoord list" where
  "spec_decode ws = spec_decode_from spec_initial ws"


section \<open>Physics simulation (renderers/physics.js)\<close>

text \<open>
  JavaScript numbers are modelled as real numbers: the arithmetic is exact, there is no
  rounding, no NaN and no Infinity. A quotient with divisor zero is 0 in HOL, whereas
  JavaScript yields Infinity or NaN, so a statement that evaluates or simplifies a
  quotient says that the divisor is not zero; elsewhere the quotient is kept as the
  source writes it.
\<close>

definition BASE_CELL_SIZE :: real where
  "BASE_CELL_SIZE = 8"

text \<open>The two entries of \<open>PHYSICS_DEFAULTS\<close>.\<close>

definition default_subsampleFactor :: nat where
  "default_subsampleFactor = 64"

definition beamThreshold :: real where
  "beamThreshold = 1 / 100"

record BiquadCoeffs =
  b0 :: real
  b1 :: real
  b2 :: real
  a1 :: real
  a2 :: real

record BiquadState =
  x1 :: real
  x2 :: real
  y1 :: real
  y2 :: real

text \<open>The object \<open>{x, y, z}\<close> of a filtered position.\<close>

record FilteredPosition =
  fp_x :: real
  fp_y :: real
  fp_z :: real

definition calculateBiquadCoeffs :: "real \<Rightarrow> real \<Rightarrow> BiquadCoeffs" where
  "calculateBiquadCoeffs cutoff Q =
     (let omega = 2 * pi * cutoff;
          sinOmega = sin omega;
          cosOmega = cos omega;
          alpha = sinOmega / (2 * Q);
          nb0 = (1 - cosOmega) / 2;
          nb1 = 1 - cosOmega;
          nb2 = (1 - cosOmega) / 2;
          na0 = 1 + alpha;
          na1 = - 2 * cosOmega;
          na2 = 1 - alpha
      in \<lparr> b0 = nb0 / na0, b1 = nb1 / na0, b2 = nb2 / na0, a1 = na1 / na0, a2 = na2 / na0 \<rparr>)"

definition createBiquadState :: "real \<Rightarrow> BiquadState" where
  "createBiquadState initialValue =
     \<lparr> x1 = initialValue, x2 = initialValue, y1 = initialValue, y2 = initialValue \<rparr>"

text \<open>\<open>applyBiquad\<close> updates the state object in place; the model returns it.\<close>

definition applyBiquad :: "real \<Rightarrow> BiquadState \<Rightarrow> BiquadCoeffs \<Rightarrow> real \<times> BiquadState" where
  "applyBiquad input state coeffs =
     (let output = b0 coeffs * input + b1 coeffs * x1 state + b2 coeffs * x2 state
                   - a1 coeffs * y1 state - a2 coeffs * y2 state
      in (output, \<lparr> x1 = input, x2 = x1 state, y1 = output, y2 = y1 state \<rparr>))"

definition applyIIR :: "real \<Rightarrow> real \<Rightarrow> real \<Rightarrow> real" where
  "applyIIR input prev retention = (1 - retention) * input + retention * prev"

text \<open>The optional argument \<open>options\<close>: each field may be absent.\<close>

record PhysicsOptions =
  opt_yCoeffs :: "BiquadCoeffs option"
  opt_xGain :: "real option"
  opt_yGain :: "real option"

text \<open>The mutable variables of the loops of \<open>processCharacterPhysics\<close>.\<close>

record physics_state =
  xState :: BiquadState
  yState :: BiquadState
  zState :: real
  filteredPositions :: "FilteredPosition list"

text \<open>One pass of the inner loop body.\<close>

definition subsample_step ::
  "BiquadCoeffs \<Rightarrow> BiquadCoeffs \<Rightarrow> real \<Rightarrow> real \<Rightarrow> real \<Rightarrow> real \<Rightarrow> real \<Rightarrow> real
     \<Rightarrow> physics_state \<Rightarrow> physics_state" where
  "subsample_step xCoeffs yCoeffs xGain yGain retentionZ scaledX scaledY beam st =
     (case applyBiquad scaledX (xState st) xCoeffs of (outX, xState') \<Rightarrow>
      case applyBiquad scaledY (yState st) yCoeffs of (outY, yState') \<Rightarrow>
        let filteredX = outX * xGain;
            filteredY = outY * yGain;
            zState' = applyIIR beam (zState st) retentionZ
        in \<lparr> xState = xState', yState = yState', zState = zState',
             filteredPositions = filteredPositions st @
               [\<lparr> fp_x = filteredX, fp_y = filteredY, fp_z = zState' \<rparr>] \<rparr>)"

text \<open>\<open>for (let s = 0; s < subsampleFactor; s++)\<close>, with the passes still to run.\<close>

primrec subsample_loop :: "nat \<Rightarrow> (physics_state \<Rightarrow> physics_state) \<Rightarrow> physics_state \<Rightarrow> physics_state" where
  "subsample_loop 0 body st = st"
| "subsample_loop (Suc n) body st = subsample_loop n body (body st)"

text \<open>\<open>for (const [x, y, beam] of vectorData)\<close>.\<close>

primrec physics_rows ::
  "nat \<Rightarrow> BiquadCoeffs \<Rightarrow> BiquadCoeffs \<Rightarrow> real \<Rightarrow> real \<Rightarrow> real \<Rightarrow> real
     \<Rightarrow> VectorCoord list \<Rightarrow> physics_state \<Rightarrow> physics_state" where
  "physics_rows subsampleFactor xCoeffs yCoeffs xGain yGain retentionZ scale [] st = st"
| "physics_rows subsampleFactor xCoeffs yCoeffs xGain yGain retentionZ scale (v # rest) st =
     (case v of (x, y, beam) \<Rightarrow>
        let scaledX = of_int x * scale;
            scaledY = of_int y * scale
        in physics_rows subsampleFactor xCoeffs yCoeffs xGain yGain retentionZ scale rest
             (subsample_loop subsampleFactor
                (subsample_step xCoeffs yCoeffs xGain yGain retentionZ scaledX scaledY (of_int beam))
                st))"

definition processCharacterPhysics ::
  "VectorCoord list \<Rightarrow> nat \<Rightarrow> BiquadCoeffs \<Rightarrow> real \<Rightarrow> real \<Rightarrow> PhysicsOptions
     \<Rightarrow> FilteredPosition list" where
  "processCharacterPhysics vd subsampleFactor xyCoeffs retentionZ scale options =
     (case vd of
        [] \<Rightarrow> []
      | firstPos # _ \<Rightarrow>
          let xCoeffs = xyCoeffs;
              yCoeffs = (case opt_yCoeffs options of Some c \<Rightarrow> c | None \<Rightarrow> xyCoeffs);
              xGain = (case opt_xGain options of Some g \<Rightarrow> g | None \<Rightarrow> 1);
              yGain = (case opt_yGain options of Some g \<Rightarrow> g | None \<Rightarrow> 1);
              st0 = \<lparr> xState = createBiquadState (of_int (fst firstPos) * scale),
                      yState = createBiquadState (of_int (fst (snd firstPos)) * scale),
                      zState = of_int (snd (snd firstPos)),
                      filteredPositions = [] \<rparr>
          in filteredPositions
               (physics_rows subsampleFactor xCoeffs yCoeffs xGain yGain retentionZ scale vd st0))"

text \<open>\<open>scaledToCanvas\<close> returns the object \<open>{canvasX, canvasY}\<close>, here a pair.\<close>

definition scaledToCanvas :: "real \<Rightarrow> real \<Rightarrow> real \<Rightarrow> real \<Rightarrow> real \<Rightarrow> real \<Rightarrow> real \<times> real" where
  "scaledToCanvas scaledX scaledY cellPixelSize scale originOffsetX originOffsetY =
     (let pixelsPerUnit = cellPixelSize / (BASE_CELL_SIZE * scale);
          offsetX = originOffsetX * scale * pixelsPerUnit;
          offsetY = originOffsetY * scale * pixelsPerUnit;
          pixelX = scaledX * pixelsPerUnit;
          pixelY = scaledY * pixelsPerUnit;
          canvasX = offsetX + pixelX;
          canvasY = cellPixelSize - offsetY - pixelY
      in (canvasX, canvasY))"

subsection \<open>The coordinate mapper as the specification words it\<close>

text \<open>
  Section 4.6: pixels-per-unit is \<open>cellPixelSize / (baseCellSize * characterScale)\<close>; the
  origin offset and the input coordinates are scaled by this factor; then
  \<open>px = offsetX + scaledX\<close> and \<open>py = cellPixelSize - offsetY - scaledY\<close>.
\<close>

definition spec_toRaster :: "real \<Rightarrow> real \<Rightarrow> real \<Rightarrow> real \<Rightarrow> real \<Rightarrow> real \<Rightarrow> real \<times> real" where
  "spec_toRaster x y cellPixelSize scale originOffsetX originOffsetY =
     (let ppu = cellPixelSize / (8 * scale) in
      (originOffsetX * ppu + x * ppu, cellPixelSize - originOffsetY * ppu - y * ppu))"

section \<open>Gaussian spot renderer (renderers/gaussianMode.js)\<close>

text \<open>The constants of \<open>GAUSSIAN\<close>.\<close>

definition sigmaMult :: real where
  "sigmaMult = 1 / 2"

definition sigmasCoverage :: real where
  "sigmasCoverage = 3"

text \<open>
  A \<open>Float32Array\<close> is a list of reals (the rounding to single precision is not
  modelled). A write at an index outside the array is ignored, as JavaScript does for
  typed arrays. A read is only meaningful inside the array: outside, JavaScript yields
  \<open>undefined\<close>, which turns the arithmetic that uses it into NaN.
\<close>

definition f32_write :: "real list \<Rightarrow> int \<Rightarrow> real \<Rightarrow> real list" where
  "f32_write a i v = (if 0 \<le> i \<and> i < int (length a) then a[nat i := v] else a)"

definition f32_read :: "real list \<Rightarrow> int \<Rightarrow> real" where
  "f32_read a i = a ! nat i"

text \<open>The kernel object \<open>{weights, radius, sigma}\<close>.\<close>

record GaussianKernel =
  k_weights :: "real list"
  k_radius :: int
  k_sigma :: real

text \<open>
  The part of \<open>getGaussianKernel\<close> after the cache test: a zero-filled array of
  \<open>size * size\<close> entries, filled by the two nested loops over \<open>dy\<close> and \<open>dx\<close>
  (\<open>ksize\<close> is the source's \<open>size\<close>, \<open>sg\<close> its \<open>sigma\<close>).
\<close>

definition kernel_weight_step :: "int \<Rightarrow> int \<Rightarrow> real \<Rightarrow> int \<Rightarrow> int \<Rightarrow> real list \<Rightarrow> real list" where
  "kernel_weight_step radius ksize twoSigmaSq dy dx ws =
     (let distSq = dx * dx + dy * dy;
          weight = exp (- of_int distSq / twoSigmaSq);
          idx = (dy + radius) * ksize + (dx + radius)
      in f32_write ws idx weight)"

definition compute_kernel :: "real \<Rightarrow> int \<Rightarrow> GaussianKernel" where
  "compute_kernel sg radius =
     (let ksize = radius * 2 + 1;
          weights0 = replicate (nat (ksize * ksize)) 0;
          twoSigmaSq = 2 * sg * sg;
          weights = fold (\<lambda>dy. fold (kernel_weight_step radius ksize twoSigmaSq dy) [- radius..radius])
                      [- radius..radius] weights0
      in \<lparr> k_weights = weights, k_radius = radius, k_sigma = sg \<rparr>)"

text \<open>
  \<open>getGaussianKernel\<close> reads and writes the module variable \<open>gaussianKernel\<close>, initially
  \<open>null\<close>: the model takes the variable and returns it with the result.
\<close>

definition getGaussianKernel ::
  "real \<Rightarrow> GaussianKernel option \<Rightarrow> GaussianKernel \<times> GaussianKernel option" where
  "getGaussianKernel sg gaussianKernel =
     (let radius = \<lceil>sg * sigmasCoverage\<rceil> in
      case gaussianKernel of
        Some cached \<Rightarrow>
          if \<bar>k_sigma cached - sg\<bar> < 1 / 1000 then (cached, gaussianKernel)
          else (compute_kernel sg radius, Some (compute_kernel sg radius))
      | None \<Rightarrow> (compute_kernel sg radius, Some (compute_kernel sg radius)))"

text \<open>The kernel of an uncached computation: a call with the module variable \<open>null\<close>.\<close>

definition fresh_kernel :: "real \<Rightarrow> GaussianKernel" where
  "fresh_kernel sg = fst (getGaussianKernel sg None)"

text \<open>The kernels returned by successive calls, the module variable threaded through.\<close>

primrec kernel_calls :: "real list \<Rightarrow> GaussianKernel option \<Rightarrow> GaussianKernel list" where
  "kernel_calls [] gaussianKernel = []"
| "kernel_calls (sg # rest) gaussianKernel =
     (case getGaussianKernel sg gaussianKernel of
        (k, gaussianKernel') \<Rightarrow> k # kernel_calls rest gaussianKernel')"

text \<open>
  \<open>accumulateGaussian\<close>. The state of its loops is the buffer together with a log of the
  indices \<open>bufIdx\<close> at which the statement \<open>buffer[bufIdx] += intensity * weight\<close> was
  executed, in execution order.
\<close>

record accum_state =
  acc_buffer :: "real list"
  acc_written :: "int list"

text \<open>The statement \<open>buffer[bufIdx] += x\<close>.\<close>

definition add_at :: "int \<Rightarrow> real \<Rightarrow> accum_state \<Rightarrow> accum_state" where
  "add_at bufIdx x st =
     \<lparr> acc_buffer = f32_write (acc_buffer st) bufIdx (f32_read (acc_buffer st) bufIdx + x),
       acc_written = acc_written st @ [bufIdx] \<rparr>"

definition accumulate_px ::
  "int \<Rightarrow> int \<Rightarrow> int \<Rightarrow> real \<Rightarrow> real list \<Rightarrow> int \<Rightarrow> int \<Rightarrow> int \<Rightarrow> accum_state \<Rightarrow> accum_state" where
  "accumulate_px width startX kernelSize intensity weights ky py kx st =
     (let px = startX + kx in
      if px < 0 \<or> px \<ge> width then st
      else
        let weight = f32_read weights (ky * kernelSize + kx);
            bufIdx = py * width + px
        in add_at bufIdx (intensity * weight) st)"

definition accumulate_row ::
  "int \<Rightarrow> int \<Rightarrow> int \<Rightarrow> int \<Rightarrow> int \<Rightarrow> real \<Rightarrow> real list \<Rightarrow> int \<Rightarrow> accum_state \<Rightarrow> accum_state" where
  "accumulate_row width height startX startY kernelSize intensity weights ky st =
     (let py = startY + ky in
      if py < 0 \<or> py \<ge> height then st
      else fold (accumulate_px width startX kernelSize intensity weights ky py)
             [0..kernelSize - 1] st)"

definition accumulateGaussian_run ::
  "real list \<Rightarrow> int \<Rightarrow> int \<Rightarrow> real \<Rightarrow> real \<Rightarrow> real \<Rightarrow> GaussianKernel \<Rightarrow> accum_state" where
  "accumulateGaussian_run buffer width height cx cy intensity kern =
     (let weights = k_weights kern;
          radius = k_radius kern;
          kernelSize = radius * 2 + 1;
          startX = \<lfloor>cx\<rfloor> - radius;
          startY = \<lfloor>cy\<rfloor> - radius
      in fold (accumulate_row width height startX startY kernelSize intensity weights)
           [0..kernelSize - 1] \<lparr> acc_buffer = buffer, acc_written = [] \<rparr>)"

definition accumulateGaussian ::
  "real list \<Rightarrow> int \<Rightarrow> int \<Rightarrow> real \<Rightarrow> real \<Rightarrow> real \<Rightarrow> GaussianKernel \<Rightarrow> real list" where
  "accumulateGaussian buffer width height cx cy intensity kern =
     acc_buffer (accumulateGaussian_run buffer width height cx cy intensity kern)"

text \<open>
  The pairs \<open>(ky, kx)\<close> of the loop nest of \<open>accumulateGaussian\<close> that pass both
  \<open>continue\<close> tests, in loop order.
\<close>

definition kernel_cells :: "int \<Rightarrow> int \<Rightarrow> int \<Rightarrow> int \<Rightarrow> int \<Rightarrow> (int \<times> int) list" where
  "kernel_cells width height startX startY kernelSize =
     List.product
       (filter (\<lambda>ky. \<not> (startY + ky < 0 \<or> height \<le> startY + ky)) [0..kernelSize - 1])
       (filter (\<lambda>kx. \<not> (startX + kx < 0 \<or> width \<le> startX + kx)) [0..kernelSize - 1])"

text \<open>The fields of \<open>RenderConfig\<close> that the Gaussian renderer reads for the buffer.\<close>

record RenderConfig =
  cfg_characterScale :: real
  cfg_originOffsetX :: real
  cfg_originOffsetY :: real
  cfg_beamWidth :: real
  cfg_brightness :: real
  cfg_filterCutoffX :: real
  cfg_filterCutoffY :: real
  cfg_filterQX :: real
  cfg_filterQY :: real
  cfg_filterGainX :: real
  cfg_filterGainY :: real
  cfg_filterZ :: real

text \<open>
  The accumulation loop of \<open>renderCharacterGaussian\<close>. Its state is the buffer and a log
  of the arguments \<open>(canvasX, canvasY, intensity)\<close> of the calls of \<open>accumulateGaussian\<close>,
  in call order.
\<close>

record render_state =
  r_buffer :: "real list"
  r_calls :: "(real \<times> real \<times> real) list"

definition spot_step ::
  "real \<Rightarrow> RenderConfig \<Rightarrow> int \<Rightarrow> int \<Rightarrow> GaussianKernel \<Rightarrow> real \<Rightarrow> FilteredPosition
     \<Rightarrow> render_state \<Rightarrow> render_state" where
  "spot_step cellPixelSize config width height kern energyNormalization pos st =
     (if fp_z pos < beamThreshold then st
      else
        case scaledToCanvas (fp_x pos) (fp_y pos) cellPixelSize (cfg_characterScale config)
               (cfg_originOffsetX config) (cfg_originOffsetY config) of
          (canvasX, canvasY) \<Rightarrow>
            let intensity = fp_z pos * cfg_brightness config * energyNormalization
            in \<lparr> r_buffer = accumulateGaussian (r_buffer st) width height canvasX canvasY
                               intensity kern,
                 r_calls = r_calls st @ [(canvasX, canvasY, intensity)] \<rparr>)"

text \<open>
  The part of \<open>renderCharacterGaussian\<close> from the creation of the buffer to the end of
  the accumulation loop, given the filtered positions and the cached kernel variable.
\<close>

definition accumulate_spots ::
  "FilteredPosition list \<Rightarrow> real \<Rightarrow> RenderConfig \<Rightarrow> GaussianKernel option
     \<Rightarrow> render_state \<times> GaussianKernel option" where
  "accumulate_spots positions cellPixelSize config gaussianKernel =
     (let width = \<lceil>cellPixelSize\<rceil>;
          height = \<lceil>cellPixelSize\<rceil>;
          buffer = replicate (nat (width * height)) 0;
          sg = cfg_beamWidth config * sigmaMult
      in case getGaussianKernel sg gaussianKernel of
        (kern, gaussianKernel') \<Rightarrow>
          let referenceSigma = 1;
              energyNormalization = (referenceSigma * referenceSigma) / (sg * sg)
          in (fold (spot_step cellPixelSize config width height kern energyNormalization)
                positions \<lparr> r_buffer = buffer, r_calls = [] \<rparr>,
              gaussianKernel'))"

text \<open>
  \<open>renderCharacterGaussian\<close> up to the transfer to the canvas. The character ROM
  \<open>cdcRomBinary\<close> lives in \<open>rom/binary.js\<close>, so the array that
  \<open>getCharacterVector(char)\<close> returns for the character is the parameter \<open>vd\<close>; it is
  always an array of triples built by \<open>binaryToVector\<close>. \<open>None\<close> is the early return
  for a character without vector data.
\<close>

definition renderCharacterGaussian ::
  "VectorCoord list \<Rightarrow> real \<Rightarrow> RenderConfig \<Rightarrow> GaussianKernel option
     \<Rightarrow> render_state option \<times> GaussianKernel option" where
  "renderCharacterGaussian vd cellPixelSize config gaussianKernel =
     (if vd = [] then (None, gaussianKernel)
      else
        let xCoeffs = calculateBiquadCoeffs (cfg_filterCutoffX config) (cfg_filterQX config);
            yCoeffs = calculateBiquadCoeffs (cfg_filterCutoffY config) (cfg_filterQY config);
            positions = processCharacterPhysics vd default_subsampleFactor xCoeffs
                          (cfg_filterZ config) (cfg_characterScale config)
                          \<lparr> opt_yCoeffs = Some yCoeffs,
                            opt_xGain = Some (cfg_filterGainX config),
                            opt_yGain = Some (cfg_filterGainY config) \<rparr>
        in case accumulate_spots positions cellPixelSize config gaussianKernel of
             (st, gaussianKernel') \<Rightarrow> (Some st, gaussianKernel'))"

section \<open>Properties of the ROM decoder\<close>

lemma flag_bit: "flag b n = bit b n"
  by (simp add: flag_def bit_iff_odd_drop_bit and_one_eq mod_2_eq_odd)

lemmas row_defs = advance_def beam_toggle_def horizontal_move_def vertical_move_def

lemma advance_vectorData [simp]: "vectorData (advance b st) = vectorData st"
  by (simp add: row_defs Let_def)

lemma advance_warnings [simp]: "warnings (advance b st) = warnings st"
  by (simp add: row_defs Let_def)

lemma within_bounds_sample: "within_bounds st = in_range (sample st)"
  by (simp add: within_bounds_def in_range_def sample_def)

lemma advance_output_irrelevant:
  "advance b (st\<lparr>vectorData := out, warnings := ws\<rparr>) = (advance b st)\<lparr>vectorData := out, warnings := ws\<rparr>"
  by (simp add: row_defs Let_def)

lemma trace_output_irrelevant:
  "trace (st\<lparr>vectorData := out, warnings := ws\<rparr>) bs = trace st bs"
proof (induction bs arbitrary: st)
  case Nil
  show ?case by simp
next
  case (Cons b bs)
  have "sample (advance b (st\<lparr>vectorData := out, warnings := ws\<rparr>)) = sample (advance b st)"
    by (simp add: advance_output_irrelevant sample_def)
  then show ?case
    by (simp add: advance_output_irrelevant Cons.IH)
qed

lemma decode_row_as_update:
  "decode_row st b =
     (advance b st)\<lparr>vectorData := vectorData st @ filter in_range [sample (advance b st)],
                     warnings := warnings st @ map (\<lambda>v. (fst v, fst (snd v))) (filter (\<lambda>v. \<not> in_range v) [sample (advance b st)])\<rparr>"
  by (simp add: decode_row_def push_or_warn_def within_bounds_sample) (simp add: sample_def)

lemma decode_loop_vectorData:
  "vectorData (decode_loop st bs) = vectorData st @ filter in_range (trace st bs)"
proof (induction bs arbitrary: st)
  case Nil
  show ?case by simp
next
  case (Cons b bs)
  show ?case
    by (simp add: Cons.IH) (simp add: decode_row_as_update trace_output_irrelevant)
qed

lemma decode_loop_warnings:
  "warnings (decode_loop st bs) =
     warnings st @ map (\<lambda>v. (fst v, fst (snd v))) (filter (\<lambda>v. \<not> in_range v) (trace st bs))"
proof (induction bs arbitrary: st)
  case Nil
  show ?case by simp
next
  case (Cons b bs)
  show ?case
    by (simp add: Cons.IH) (simp add: decode_row_as_update trace_output_irrelevant)
qed

lemma binaryToVector_trace: "binaryToVector bs = filter in_range (trace initial_state bs)"
proof (cases "bs = []")
  case True
  then show ?thesis by (simp add: binaryToVector_def)
next
  case False
  have "vectorData initial_state = []" by (simp add: initial_state_def)
  with False show ?thesis
    by (simp only: binaryToVector_def decode_loop_vectorData if_False append_Nil)
qed

lemma length_trace [simp]: "length (trace st bs) = length bs"
  by (induction bs arbitrary: st) simp_all

subsection \<open>The decoder against the specified algorithm\<close>

lemma advance_simulates:
  assumes "currentX st = pos_x sp" "currentY st = pos_y sp"
    "beamIntensity st = (if beam_on sp then 1 else 0)"
    "horizontalDirection st = h_sign sp" "verticalDirection st = v_sign sp"
  shows "currentX (advance b st) = pos_x (spec_row sp b)"
    and "currentY (advance b st) = pos_y (spec_row sp b)"
    and "beamIntensity (advance b st) = (if beam_on (spec_row sp b) then 1 else 0)"
    and "horizontalDirection (advance b st) = h_sign (spec_row sp b)"
    and "verticalDirection (advance b st) = v_sign (spec_row sp b)"
proof -
  show "currentY (advance b st) = pos_y (spec_row sp b)"
    using assms by (cases "bit b 4"; cases "bit b 3"; cases "bit b 2"; cases "bit b 1")
      (simp_all add: row_defs flag_bit spec_row_def)
  show "currentX (advance b st) = pos_x (spec_row sp b)"
    using assms by (cases "bit b 4"; cases "bit b 3"; cases "bit b 2"; cases "bit b 1")
      (simp_all add: row_defs flag_bit spec_row_def)
  show "beamIntensity (advance b st) = (if beam_on (spec_row sp b) then 1 else 0)"
    using assms by (cases "bit b 4"; cases "bit b 3"; cases "bit b 2"; cases "bit b 1")
      (simp_all add: row_defs flag_bit spec_row_def)
  show "horizontalDirection (advance b st) = h_sign (spec_row sp b)"
    using assms by (cases "bit b 4"; cases "bit b 3"; cases "bit b 2"; cases "bit b 1")
      (simp_all add: row_defs flag_bit spec_row_def)
  show "verticalDirection (advance b st) = v_sign (spec_row sp b)"
    using assms by (cases "bit b 4"; cases "bit b 3"; cases "bit b 2"; cases "bit b 1")
      (simp_all add: row_defs flag_bit spec_row_def)
qed

lemma emit_simulates:
  assumes "currentX st = pos_x sp" "currentY st = pos_y sp"
    "beamIntensity st = (if beam_on sp then 1 else 0)"
  shows "filter in_range [sample st] = spec_emit sp"
  using assms by (simp add: in_range_def sample_def spec_emit_def CDC_CHAR_MAX_COORD_def)

lemma trace_simulates:
  assumes "currentX st = pos_x sp" "currentY st = pos_y sp"
    "beamIntensity st = (if beam_on sp then 1 else 0)"
    "horizontalDirection st = h_sign sp" "verticalDirection st = v_sign sp"
  shows "filter in_range (trace st bs) = spec_decode_from sp bs"
  using assms
proof (induction bs arbitrary: st sp)
  case Nil
  show ?case by simp
next
  case (Cons b bs)
  note sim = advance_simulates [OF Cons.prems, of b]
  have "filter in_range (trace st (b # bs)) =
        filter in_range [sample (advance b st)] @ filter in_range (trace (advance b st) bs)"
    by simp
  also have "filter in_range [sample (advance b st)] = spec_emit (spec_row sp b)"
    by (rule emit_simulates) (rule sim)+
  also have "filter in_range (trace (advance b st) bs) = spec_decode_from (spec_row sp b) bs"
    by (rule Cons.IH) (rule sim)+
  finally show ?case by simp
qed

text \<open>
  Claim C1. For every sequence of control words, \<open>binaryToVector\<close> returns what the
  delta-decoding algorithm of the specification returns: from position (0,0), beam off
  and both direction signs +1, each word is handled by the vertical rule (both bits:
  the sign flips and nothing moves; the "1" bit alone: one unit; the "2" bit alone: two
  units; neither: no move), the same rule on the horizontal bits, then the beam toggle,
  and the row's sample is \<open>(x, y, beam)\<close> with the beam taken after the toggle. The
  specified algorithm is taken with its edge-case rule: a row whose position is outside
  [0,6] emits no sample.
\<close>

theorem binaryToVector_refines_spec_decode: "binaryToVector ws = spec_decode ws"
proof -
  have "filter in_range (trace initial_state ws) = spec_decode_from spec_initial ws"
    by (rule trace_simulates) (simp_all add: initial_state_def spec_initial_def)
  then show ?thesis
    by (simp add: binaryToVector_trace spec_decode_def)
qed

theorem binaryToVector_refines_spec_decode_witness:
  "binaryToVector [17, 4, 24, 3, 16] = [(0, 1, 1), (1, 1, 1), (1, 1, 1), (3, 1, 0), (3, 0, 0)] \<and>
   spec_decode [17, 4, 24, 3, 16] = [(0, 1, 1), (1, 1, 1), (1, 1, 1), (3, 1, 0), (3, 0, 0)]"
proof -
  have "binaryToVector [17, 4, 24, 3, 16] = [(0, 1, 1), (1, 1, 1), (1, 1, 1), (3, 1, 0), (3, 0, 0)]"
    by code_simp
  with binaryToVector_refines_spec_decode [of "[17, 4, 24, 3, 16]"] show ?thesis
    by simp
qed

subsection \<open>Rows that leave the character grid\<close>

text \<open>
  Claim C2. For every sequence of control words the decoder is defined (it has no
  failing branch), it processes every row, and its output is exactly the running
  samples of the rows whose position lies in [0,6] on both axes, in row order: a row
  whose position is outside emits nothing (its position goes to the warning log) and
  the rows after it are still decoded. Hence every sample of the output has both
  coordinates in [0,6].
\<close>

theorem out_of_bounds_rows_dropped:
  "binaryToVector ws = filter in_range (trace initial_state ws) \<and>
   length (trace initial_state ws) = length ws \<and>
   warnings (decode_loop initial_state ws) =
     map (\<lambda>v. (fst v, fst (snd v))) (filter (\<lambda>v. \<not> in_range v) (trace initial_state ws)) \<and>
   (\<forall>v \<in> set (binaryToVector ws).
      0 \<le> fst v \<and> fst v \<le> 6 \<and> 0 \<le> fst (snd v) \<and> fst (snd v) \<le> 6)"
proof -
  have "warnings initial_state = []" by (simp add: initial_state_def)
  then have w: "warnings (decode_loop initial_state ws) =
     map (\<lambda>v. (fst v, fst (snd v))) (filter (\<lambda>v. \<not> in_range v) (trace initial_state ws))"
    by (simp add: decode_loop_warnings)
  have "\<forall>v \<in> set (filter in_range (trace initial_state ws)).
      0 \<le> fst v \<and> fst v \<le> 6 \<and> 0 \<le> fst (snd v) \<and> fst (snd v) \<le> 6"
    by (simp add: in_range_def CDC_CHAR_MAX_COORD_def)
  with w show ?thesis
    by (simp only: binaryToVector_trace length_trace simp_thms)
qed

theorem out_of_bounds_rows_dropped_witness:
  "trace initial_state [6, 4, 9, 6, 4] = [(0, 0, 0), (- 1, 0, 0), (- 1, 2, 1), (- 1, 2, 1), (0, 2, 1)] \<and>
   binaryToVector [6, 4, 9, 6, 4] = [(0, 0, 0), (0, 2, 1)] \<and>
   warnings (decode_loop initial_state [6, 4, 9, 6, 4]) = [(- 1, 0), (- 1, 2), (- 1, 2)] \<and>
   (0, 2, 1) \<in> set (binaryToVector [6, 4, 9, 6, 4]) \<and>
   (0::int) \<le> fst (0, 2, 1) \<and> fst (0, 2, 1) \<le> (6::int) \<and>
   (0::int) \<le> fst (snd (0, 2, 1)) \<and> fst (snd (0, 2, 1)) \<le> (6::int)"
proof -
  have t: "trace initial_state [6, 4, 9, 6, 4] = [(0, 0, 0), (- 1, 0, 0), (- 1, 2, 1), (- 1, 2, 1), (0, 2, 1)]"
    by code_simp
  have r: "filter in_range [(0, 0, 0), (- 1, 0, 0), (- 1, 2, 1), (- 1, 2, 1), (0, 2, 1)] = [(0, 0, 0), (0, 2, 1)]"
    by code_simp
  have n: "map (\<lambda>v. (fst v, fst (snd v))) (filter (\<lambda>v. \<not> in_range v) [(0, 0, 0), (- 1, 0, 0), (- 1, 2, 1), (- 1, 2, 1), (0, 2, 1)])
      = [(- 1, 0), (- 1, 2), (- 1, 2)]"
    by code_simp
  from out_of_bounds_rows_dropped [of "[6, 4, 9, 6, 4]"] show ?thesis
    unfolding t r n by simp
qed

subsection \<open>The running position across dropped rows\<close>

lemma decode_row_fields:
  "currentX (decode_row st b) = currentX st + axis_delta (flag b 2) (flag b 1) (horizontalDirection st)"
  "currentY (decode_row st b) = currentY st + axis_delta (flag b 4) (flag b 3) (verticalDirection st)"
  "horizontalDirection (decode_row st b) = axis_direction (flag b 2) (flag b 1) (horizontalDirection st)"
  "verticalDirection (decode_row st b) = axis_direction (flag b 4) (flag b 3) (verticalDirection st)"
  by (simp_all add: decode_row_def push_or_warn_def row_defs axis_delta_def axis_direction_def Let_def)

lemma decode_loop_position:
  "currentX (decode_loop st ws) =
     currentX st + sum_list (map fst (row_deltas (horizontalDirection st) (verticalDirection st) ws))"
  "currentY (decode_loop st ws) =
     currentY st + sum_list (map snd (row_deltas (horizontalDirection st) (verticalDirection st) ws))"
  by (induction ws arbitrary: st) (simp_all add: decode_row_fields)

lemma decode_loop_snoc: "decode_loop st (ws @ [w]) = decode_row (decode_loop st ws) w"
  by (induction ws arbitrary: st) simp_all

lemma binaryToVector_loop: "binaryToVector ws = vectorData (decode_loop initial_state ws)"
  by (simp add: binaryToVector_def) (simp add: initial_state_def)

lemma decode_row_emits:
  "within_bounds (decode_row st w) \<Longrightarrow>
   vectorData (decode_row st w) = vectorData st @ [sample (decode_row st w)]"
  by (auto simp add: decode_row_def push_or_warn_def within_bounds_def sample_def split: if_splits)

text \<open>
  Claim C10. The running position of the decoder is the sum of the displacements of
  all rows decoded so far, whether or not their samples were emitted: a row that is
  dropped for being out of bounds neither clamps nor resets the position. So when a
  row brings the position back into [0,6], the sample it emits carries every
  displacement accumulated while the position was outside; consecutive emitted samples
  can therefore differ by more than 2 units (the witness jumps from (0,0) to (0,4)).
\<close>

theorem position_not_clamped:
  "currentX (decode_loop initial_state ws) = sum_list (map fst (row_deltas 1 1 ws)) \<and>
   currentY (decode_loop initial_state ws) = sum_list (map snd (row_deltas 1 1 ws)) \<and>
   (within_bounds (decode_loop initial_state (ws @ [w])) \<longrightarrow>
      binaryToVector (ws @ [w]) =
        binaryToVector ws @
          [(sum_list (map fst (row_deltas 1 1 (ws @ [w]))),
            sum_list (map snd (row_deltas 1 1 (ws @ [w]))),
            beamIntensity (decode_loop initial_state (ws @ [w])))])"
proof -
  have x: "currentX (decode_loop initial_state bs) = sum_list (map fst (row_deltas 1 1 bs))" for bs
    using decode_loop_position(1) [of initial_state bs] by (simp add: initial_state_def)
  have y: "currentY (decode_loop initial_state bs) = sum_list (map snd (row_deltas 1 1 bs))" for bs
    using decode_loop_position(2) [of initial_state bs] by (simp add: initial_state_def)
  have "binaryToVector (ws @ [w]) =
        binaryToVector ws @ [sample (decode_loop initial_state (ws @ [w]))]"
    if "within_bounds (decode_loop initial_state (ws @ [w]))"
    using that decode_row_emits [of "decode_loop initial_state ws" w]
    by (simp add: binaryToVector_loop decode_loop_snoc)
  then show ?thesis
    by (simp add: x y sample_def)
qed

theorem position_not_clamped_witness:
  "within_bounds (decode_loop initial_state ([6, 2, 8, 8, 6] @ [2])) \<and>
   row_deltas 1 1 ([6, 2, 8, 8, 6] @ [2]) = [(0, 0), (- 2, 0), (0, 2), (0, 2), (0, 0), (2, 0)] \<and>
   binaryToVector [6, 2, 8, 8, 6] = [(0, 0, 0)] \<and>
   binaryToVector ([6, 2, 8, 8, 6] @ [2]) = [(0, 0, 0), (0, 4, 0)]"
proof -
  have b: "within_bounds (decode_loop initial_state ([6, 2, 8, 8, 6] @ [2]))"
    by code_simp
  have d: "row_deltas 1 1 ([6, 2, 8, 8, 6] @ [2]) = [(0, 0), (- 2, 0), (0, 2), (0, 2), (0, 0), (2, 0)]"
    by code_simp
  have p: "binaryToVector [6, 2, 8, 8, 6] = [(0, 0, 0)]"
    by code_simp
  have i: "beamIntensity (decode_loop initial_state ([6, 2, 8, 8, 6] @ [2])) = 0"
    by code_simp
  from position_not_clamped [of "[6, 2, 8, 8, 6]" 2] b
  have "binaryToVector ([6, 2, 8, 8, 6] @ [2]) =
        binaryToVector [6, 2, 8, 8, 6] @
          [(sum_list (map fst (row_deltas 1 1 ([6, 2, 8, 8, 6] @ [2]))),
            sum_list (map snd (row_deltas 1 1 ([6, 2, 8, 8, 6] @ [2]))),
            beamIntensity (decode_loop initial_state ([6, 2, 8, 8, 6] @ [2])))]"
    by blast
  then have "binaryToVector ([6, 2, 8, 8, 6] @ [2]) = [(0, 0, 0), (0, 4, 0)]"
    unfolding d p i by simp
  with b d p show ?thesis by blast
qed


section \<open>Properties of the vector simplifier\<close>

lemma dedup_loop_remdups_adj:
  "result \<noteq> [] \<Longrightarrow> dedup_loop result vs = butlast result @ remdups_adj (last result # vs)"
proof (induction vs arbitrary: result)
  case Nil
  then show ?case by simp
next
  case (Cons current rest)
  show ?case
  proof (cases "current = last result")
    case True
    with Cons show ?thesis by simp
  next
    case False
    then have "fst current \<noteq> fst (last result) \<or> fst (snd current) \<noteq> fst (snd (last result))
        \<or> snd (snd current) \<noteq> snd (snd (last result))"
      by (auto simp add: prod_eq_iff)
    with False Cons.IH [of "result @ [current]"] Cons.prems show ?thesis
      by (simp add: Let_def)
  qed
qed

lemma deduplicateAdjacent_remdups_adj: "deduplicateAdjacent vd = remdups_adj vd"
  by (cases vd) (simp_all add: deduplicateAdjacent_def dedup_loop_remdups_adj)

lemma remdups_adj_idem: "remdups_adj (remdups_adj xs) = remdups_adj xs"
  using distinct_adj_remdups_adj [of xs] by (simp only: distinct_adj_altdef)

lemma subseq_remdups_adj: "subseq (remdups_adj xs) xs"
  by (induction xs rule: remdups_adj.induct) auto

text \<open>
  Claim C9. The simplifier is idempotent, \<open>simplify (simplify s) = simplify s\<close> for
  every sample sequence \<open>s\<close>, and its output is a subsequence of its input, in the
  input's order.
\<close>

theorem simplifyVector_idempotent_subseq:
  "simplifyVector (simplifyVector s) = simplifyVector s \<and> subseq (simplifyVector s) s"
  by (simp add: simplifyVector_def deduplicateAdjacent_remdups_adj remdups_adj_idem subseq_remdups_adj)

theorem simplifyVector_idempotent_subseq_witness:
  "simplifyVector (simplifyVector [(0, 0, 0), (0, 0, 0), (1, 0, 1), (1, 0, 1), (0, 0, 0)]) =
     [(0, 0, 0), (1, 0, 1), (0, 0, 0)] \<and>
   subseq [(0, 0, 0), (1, 0, 1), (0, 0, 0)] [(0, 0, 0), (0, 0, 0), (1, 0, 1), (1, 0, 1), (0, 0, 0)]"
proof -
  have "simplifyVector [(0, 0, 0), (0, 0, 0), (1, 0, 1), (1, 0, 1), (0, 0, 0)] =
      [(0, 0, 0), (1, 0, 1), (0, 0, 0)]"
    by code_simp
  with simplifyVector_idempotent_subseq [of "[(0, 0, 0), (0, 0, 0), (1, 0, 1), (1, 0, 1), (0, 0, 0)]"]
  show ?thesis by simp
qed

subsection \<open>Trimming is not part of the simplifier\<close>

lemma first_on_from_eq:
  "first_on_from i vs =
     (if \<forall>v \<in> set vs. beam_off v then - 1 else int (i + length (takeWhile beam_off vs)))"
  by (induction vs arbitrary: i) (simp_all add: beam_off_def)

lemma last_on_below_eq:
  "n \<le> length vd \<Longrightarrow>
   last_on_below vd n =
     (if \<forall>v \<in> set (take n vd). beam_off v then - 1
      else int n - 1 - int (length (takeWhile beam_off (rev (take n vd)))))"
proof (induction n)
  case 0
  show ?case by simp
next
  case (Suc n)
  then have n: "n < length vd" by simp
  show ?case
  proof (cases "beam_off (vd ! n)")
    case True
    with Suc n show ?thesis
      by (simp add: take_Suc_conv_app_nth) (simp add: beam_off_def)
  next
    case False
    with n show ?thesis
      by (auto simp add: take_Suc_conv_app_nth beam_off_def)
  qed
qed

lemma rev_dropWhile_rev:
  "rev (dropWhile P (rev ys)) = take (length ys - length (takeWhile P (rev ys))) ys"
proof -
  have "dropWhile P (rev ys) = drop (length (takeWhile P (rev ys))) (rev ys)"
    by (rule dropWhile_eq_drop)
  then show ?thesis by (simp add: rev_drop)
qed

lemma trimBeamOff_eq: "trimBeamOff vd = rev (dropWhile beam_off (rev (dropWhile beam_off vd)))"
proof (cases "\<forall>v \<in> set vd. beam_off v")
  case True
  then have d: "dropWhile beam_off vd = []" by simp
  from True show ?thesis
    by (simp add: trimBeamOff_def first_on_from_eq d)
next
  case False
  define a where "a = length (takeWhile beam_off vd)"
  define b where "b = length (takeWhile beam_off (rev vd))"
  define n where "n = length vd"
  from False have ne: "vd \<noteq> []" by auto
  have a_le: "a \<le> n" unfolding a_def n_def by (rule length_takeWhile_le)
  have b_le: "b \<le> n" unfolding b_def n_def using length_takeWhile_le [of beam_off "rev vd"] by simp
  have dw: "dropWhile beam_off vd = drop a vd"
    unfolding a_def by (rule dropWhile_eq_drop)
  from False have dne: "dropWhile beam_off vd \<noteq> []" by simp
  then have "\<not> beam_off (hd (dropWhile beam_off vd))" by (rule hd_dropWhile)
  moreover from dne have "hd (dropWhile beam_off vd) \<in> set (rev (drop a vd))"
    by (simp add: dw)
  moreover have "rev vd = rev (drop a vd) @ rev (take a vd)"
    by (simp flip: rev_append)
  ultimately have tw: "takeWhile beam_off (rev (drop a vd)) = takeWhile beam_off (rev vd)"
    by (metis takeWhile_append1)
  have rhs: "rev (dropWhile beam_off (rev (dropWhile beam_off vd))) = take (n - a - b) (drop a vd)"
    by (simp add: dw rev_dropWhile_rev tw b_def n_def)
  from False have f: "first_on_from 0 vd = int a"
    by (simp add: first_on_from_eq a_def)
  have "last_on_below vd (length vd) =
     (if \<forall>v \<in> set (take (length vd) vd). beam_off v then - 1
      else int (length vd) - 1 - int (length (takeWhile beam_off (rev (take (length vd) vd)))))"
    by (rule last_on_below_eq) simp
  with False have l: "last_on_below vd (length vd) = int n - 1 - int b"
    by (auto simp add: b_def n_def)
  have "slice vd (int a) (int n - 1 - int b + 1) = take (n - a - b) (drop a vd)"
    using a_le b_le by (simp add: slice_def Let_def n_def [symmetric] nat_diff_distrib' add.commute del: of_nat_diff)
  with ne f l rhs show ?thesis
    by (simp add: trimBeamOff_def Let_def)
qed

text \<open>
  Claim C3, as amended. \<open>simplifyVector\<close> removes consecutive samples that are equal
  in all three fields, keeping the first of each run, and does nothing else: it keeps
  the first and the last sample of its input, so the beam-off samples before the first
  beam-on sample and after the last one stay, and its result is empty only for the
  empty input. Trimming is the separate function \<open>trimBeamOff\<close>, which
  \<open>simplifyVector\<close> does not call: it returns the part of the sequence from the first
  to the last sample with beam 1, and the empty sequence when no sample has beam 1.
\<close>

theorem simplifyVector_dedup_only:
  "simplifyVector s = remdups_adj s \<and>
   distinct_adj (simplifyVector s) \<and>
   (simplifyVector s = [] \<longleftrightarrow> s = []) \<and>
   hd (simplifyVector s) = hd s \<and> last (simplifyVector s) = last s \<and>
   trimBeamOff s = rev (dropWhile beam_off (rev (dropWhile beam_off s))) \<and>
   ((\<forall>v \<in> set s. beam_off v) \<longrightarrow> trimBeamOff s = [])"
proof -
  have t: "trimBeamOff s = []" if "\<forall>v \<in> set s. beam_off v"
  proof -
    from that have "dropWhile beam_off s = []" by simp
    then show ?thesis by (simp only: trimBeamOff_eq rev.simps dropWhile.simps)
  qed
  have r: "simplifyVector s = remdups_adj s"
    by (simp add: simplifyVector_def deduplicateAdjacent_remdups_adj)
  have "distinct_adj (simplifyVector s)" and "simplifyVector s = [] \<longleftrightarrow> s = []"
    and "hd (simplifyVector s) = hd s" and "last (simplifyVector s) = last s"
    by (simp_all add: r)
  with t r trimBeamOff_eq [of s] show ?thesis by blast
qed

text \<open>
  The claim as stated fails: a sequence without any beam-on sample is returned
  unchanged, not emptied, and the leading and trailing beam-off samples around a
  stroke are kept.
\<close>

theorem simplifyVector_trim_counterexample:
  "simplifyVector [(0, 0, 0), (3, 0, 0)] = [(0, 0, 0), (3, 0, 0)] \<and>
   simplifyVector [(0, 0, 0), (1, 0, 1), (1, 0, 1), (2, 0, 0)] = [(0, 0, 0), (1, 0, 1), (2, 0, 0)]"
  by (simp add: simplifyVector_def deduplicateAdjacent_def)

theorem simplifyVector_dedup_only_witness:
  "beam_off (0, 0, 0) \<and> beam_off (3, 0, 0) \<and>
   trimBeamOff [(0, 0, 0), (3, 0, 0)] = [] \<and>
   simplifyVector [(0, 0, 0), (3, 0, 0)] = remdups_adj [(0, 0, 0), (3, 0, 0)] \<and>
   trimBeamOff [(0, 0, 0), (1, 0, 1), (1, 0, 1), (2, 0, 0)] = [(1, 0, 1), (1, 0, 1)]"
proof -
  have off: "\<forall>v \<in> set [(0, 0, 0), (3, 0, 0)]. beam_off v"
    by (simp add: beam_off_def)
  from simplifyVector_dedup_only [of "[(0, 0, 0), (3, 0, 0)]"] off
  have "trimBeamOff [(0, 0, 0), (3, 0, 0)] = []"
     and "simplifyVector [(0, 0, 0), (3, 0, 0)] = remdups_adj [(0, 0, 0), (3, 0, 0)]"
    by blast+
  moreover from simplifyVector_dedup_only [of "[(0, 0, 0), (1, 0, 1), (1, 0, 1), (2, 0, 0)]"]
  have "trimBeamOff [(0, 0, 0), (1, 0, 1), (1, 0, 1), (2, 0, 0)] = [(1, 0, 1), (1, 0, 1)]"
    by (simp add: beam_off_def)
  ultimately show ?thesis using off by simp
qed

section \<open>Properties of the physics pipeline\<close>

lemma subsample_step_length:
  "length (filteredPositions (subsample_step xc yc xg yg rz sx sy beam st)) =
     Suc (length (filteredPositions st))"
  by (simp add: subsample_step_def Let_def split: prod.splits)

lemma subsample_loop_length:
  assumes "\<And>st. length (filteredPositions (body st)) = Suc (length (filteredPositions st))"
  shows "length (filteredPositions (subsample_loop n body st)) = length (filteredPositions st) + n"
  by (induction n arbitrary: st) (simp_all add: assms)

lemma physics_rows_length:
  "length (filteredPositions (physics_rows n xc yc xg yg rz sc vd st)) =
     length (filteredPositions st) + length vd * n"
proof (induction vd arbitrary: st)
  case Nil
  show ?case by simp
next
  case (Cons v rest)
  obtain x y beam where v: "v = (x, y, beam)" by (cases v)
  show ?case
    by (simp add: v Cons.IH subsample_loop_length subsample_step_length)
qed

text \<open>
  Claim C4. For every vector-sample sequence, the empty one included, every
  non-negative integer subsample factor and every choice of the other parameters,
  \<open>processCharacterPhysics\<close> returns a sequence whose length is the number of raw
  samples times the subsample factor; the empty input gives the empty output. The
  function has no failing branch.
\<close>

theorem processCharacterPhysics_length:
  "length (processCharacterPhysics vd n xyCoeffs retentionZ scale options) = length vd * n \<and>
   processCharacterPhysics [] n xyCoeffs retentionZ scale options = []"
proof (cases vd)
  case Nil
  then show ?thesis by (simp add: processCharacterPhysics_def)
next
  case (Cons v rest)
  then show ?thesis
    by (simp add: processCharacterPhysics_def Let_def physics_rows_length del: physics_rows.simps)
qed

theorem processCharacterPhysics_length_witness:
  "length (processCharacterPhysics [(0, 0, 0), (1, 2, 1), (3, 2, 1)] 64
      \<lparr>b0 = 1, b1 = 0, b2 = 0, a1 = 0, a2 = 0\<rparr> (1 / 2) 2
      \<lparr>opt_yCoeffs = None, opt_xGain = None, opt_yGain = Some 2\<rparr>) = 192"
  using processCharacterPhysics_length [of "[(0, 0, 0), (1, 2, 1), (3, 2, 1)]" 64
      "\<lparr>b0 = 1, b1 = 0, b2 = 0, a1 = 0, a2 = 0\<rparr>" "1 / 2" 2
      "\<lparr>opt_yCoeffs = None, opt_xGain = None, opt_yGain = Some 2\<rparr>"]
  by simp

subsection \<open>Coordinate mapper\<close>

text \<open>
  The claim C5 as stated fails: the origin offset is not scaled by pixels-per-unit
  alone. At cell size 16, character scale 2 and origin offset (1,1) the pixels-per-unit
  is 1, so scaling the offset by exactly that factor would map (0,0) to (1,15); the
  code maps it to (2,14).
\<close>

theorem scaledToCanvas_counterexample:
  "scaledToCanvas 0 0 16 2 1 1 = (2, 14) \<and> spec_toRaster 0 0 16 2 1 1 = (1, 15)"
  by (simp add: scaledToCanvas_def spec_toRaster_def BASE_CELL_SIZE_def)

text \<open>
  Claim C5, as amended. \<open>scaledToCanvas\<close> computes pixels-per-unit as
  \<open>cellPixelSize / (8 * characterScale)\<close>, scales the input coordinates by that factor
  and the origin offset, which is given in base units, by \<open>characterScale\<close> times that
  factor (for a nonzero character scale this is \<open>cellPixelSize / 8\<close> per base unit), and
  returns \<open>px = offsetX + scaledX\<close> and \<open>py = cellPixelSize - offsetY - scaledY\<close>. At
  character scale 1 this is the mapping the specification describes.
\<close>

theorem scaledToCanvas_formula:
  "scaledToCanvas x y cellPixelSize scale originOffsetX originOffsetY =
     (originOffsetX * scale * (cellPixelSize / (8 * scale)) + x * (cellPixelSize / (8 * scale)),
      cellPixelSize - originOffsetY * scale * (cellPixelSize / (8 * scale))
        - y * (cellPixelSize / (8 * scale))) \<and>
   (scale \<noteq> 0 \<longrightarrow>
      scaledToCanvas x y cellPixelSize scale originOffsetX originOffsetY =
        (originOffsetX * (cellPixelSize / 8) + x * (cellPixelSize / (8 * scale)),
         cellPixelSize - originOffsetY * (cellPixelSize / 8) - y * (cellPixelSize / (8 * scale)))) \<and>
   (scale = 1 \<longrightarrow>
      scaledToCanvas x y cellPixelSize scale originOffsetX originOffsetY =
        spec_toRaster x y cellPixelSize scale originOffsetX originOffsetY)"
  by (simp add: scaledToCanvas_def spec_toRaster_def BASE_CELL_SIZE_def)

theorem scaledToCanvas_formula_witness:
  "(2::real) \<noteq> 0 \<and> scaledToCanvas 3 5 16 2 1 1 = (5, 9) \<and>
   spec_toRaster 3 5 16 1 1 1 = (8, 4)"
proof -
  from scaledToCanvas_formula [of 3 5 16 2 1 1]
  have a: "scaledToCanvas 3 5 16 2 1 1 = (5, 9)" by simp
  from scaledToCanvas_formula [of 3 5 16 1 1 1]
  have b: "scaledToCanvas 3 5 16 1 1 1 = (8, 4)" by simp
  from scaledToCanvas_formula [of 3 5 16 1 1 1]
  have "scaledToCanvas 3 5 16 1 1 1 = spec_toRaster 3 5 16 1 1 1" by blast
  with b have "spec_toRaster 3 5 16 1 1 1 = (8, 4)" by simp
  with a show ?thesis by simp
qed


section \<open>Properties of the Gaussian renderer\<close>

subsection \<open>Arrays and loop nests\<close>

lemma fold_fold_product:
  "fold (\<lambda>a. fold (f a) ys) xs s = fold (\<lambda>p. f (fst p) (snd p)) (List.product xs ys) s"
  by (induction xs arbitrary: s) (simp_all add: fold_map comp_def)

lemma cell_index_inj:
  fixes a b a' b' w :: int
  assumes "0 \<le> a" "a < w" "0 \<le> a'" "a' < w" "b * w + a = b' * w + a'"
  shows "a = a' \<and> b = b'"
proof -
  from assms have w: "0 < w" by linarith
  have "(b * w + a) div w = b" using assms(1,2) w by simp
  moreover have "(b' * w + a') div w = b'" using assms(3,4) w by simp
  ultimately have "b = b'" using assms(5) by simp
  with assms(5) show ?thesis by simp
qed

lemma f32_write_length [simp]: "length (f32_write a i v) = length a"
  by (simp add: f32_write_def)

lemma f32_write_same: "0 \<le> i \<Longrightarrow> i < int (length a) \<Longrightarrow> f32_write a i v ! nat i = v"
  by (simp add: f32_write_def)

lemma f32_write_other: "i \<noteq> int j \<Longrightarrow> f32_write a i v ! j = a ! j"
  by (auto simp add: f32_write_def)

text \<open>A sequence of assignments to distinct indices of an array.\<close>

lemma assign_fold_length [simp]:
  "length (fold (\<lambda>p a. f32_write a (idx p) (val p)) ps a) = length a"
  by (induction ps arbitrary: a) simp_all

lemma assign_fold_other:
  "\<forall>p \<in> set ps. idx p \<noteq> int j \<Longrightarrow>
   fold (\<lambda>p a. f32_write a (idx p) (val p)) ps a ! j = a ! j"
  by (induction ps arbitrary: a) (simp_all add: f32_write_other)

lemma assign_fold_hit:
  assumes "distinct (map idx ps)" "p \<in> set ps" "0 \<le> idx p" "idx p < int (length a)"
  shows "fold (\<lambda>p a. f32_write a (idx p) (val p)) ps a ! nat (idx p) = val p"
  using assms
proof (induction ps arbitrary: a)
  case Nil
  then show ?case by simp
next
  case (Cons q ps)
  show ?case
  proof (cases "p = q")
    case True
    from Cons.prems(1) have "idx q \<notin> idx ` set ps" by simp
    moreover from Cons.prems(3) True have "int (nat (idx q)) = idx q" by simp
    ultimately have "\<forall>r \<in> set ps. idx r \<noteq> int (nat (idx q))"
      by (metis imageI)
    then have "fold (\<lambda>p a. f32_write a (idx p) (val p)) ps (f32_write a (idx q) (val q)) ! nat (idx q)
        = f32_write a (idx q) (val q) ! nat (idx q)"
      by (rule assign_fold_other)
    with True Cons.prems(3,4) show ?thesis
      by (simp add: f32_write_same)
  next
    case False
    with Cons.prems have "p \<in> set ps" "distinct (map idx ps)" by simp_all
    with Cons.IH [of "f32_write a (idx q) (val q)"] Cons.prems(3,4) show ?thesis
      by simp
  qed
qed

subsection \<open>The kernel provider and its cache\<close>

lemma compute_kernel_fields [simp]:
  "k_radius (compute_kernel sg r) = r" "k_sigma (compute_kernel sg r) = sg"
  by (simp_all add: compute_kernel_def Let_def)

lemma kernel_weight_step_fun:
  "kernel_weight_step r k t dy dx =
     (\<lambda>a. f32_write a ((dy + r) * k + (dx + r)) (exp (- of_int (dx * dx + dy * dy) / t)))"
  by (rule ext) (simp only: kernel_weight_step_def Let_def)

lemma compute_kernel_weights:
  "k_weights (compute_kernel sg r) =
     fold (\<lambda>p a. f32_write a ((fst p + r) * (r * 2 + 1) + (snd p + r))
                    (exp (- of_int (snd p * snd p + fst p * fst p) / (2 * sg * sg))))
       (List.product [- r..r] [- r..r]) (replicate (nat ((r * 2 + 1) * (r * 2 + 1))) 0)"
  by (simp only: compute_kernel_def Let_def fold_fold_product kernel_weight_step_fun
      GaussianKernel.simps)

lemma compute_kernel_length:
  "length (k_weights (compute_kernel sg r)) = nat ((r * 2 + 1) * (r * 2 + 1))"
  by (simp add: compute_kernel_weights)

lemma kernel_index_distinct:
  "distinct (map (\<lambda>p. (fst p + r) * (r * 2 + 1) + (snd p + r)) (List.product [- r..r] [- r..r]))"
proof -
  have "inj_on (\<lambda>p. (fst p + r) * (r * 2 + 1) + (snd p + r)) (set (List.product [- r..r] [- r..r]))"
  proof (rule inj_onI)
    fix p q :: "int \<times> int"
    assume p: "p \<in> set (List.product [- r..r] [- r..r])"
      and q: "q \<in> set (List.product [- r..r] [- r..r])"
      and e: "(fst p + r) * (r * 2 + 1) + (snd p + r) = (fst q + r) * (r * 2 + 1) + (snd q + r)"
    from p q have "0 \<le> snd p + r" "snd p + r < r * 2 + 1" "0 \<le> snd q + r" "snd q + r < r * 2 + 1"
      by auto
    from cell_index_inj [OF this e] show "p = q"
      by (simp add: prod_eq_iff)
  qed
  then show ?thesis
    by (simp add: distinct_map distinct_product)
qed

lemma compute_kernel_weight:
  assumes "- r \<le> dx" "dx \<le> r" "- r \<le> dy" "dy \<le> r"
  shows "k_weights (compute_kernel sg r) ! nat ((dy + r) * (r * 2 + 1) + (dx + r)) =
           exp (- of_int (dx * dx + dy * dy) / (2 * sg * sg))"
proof -
  let ?idx = "\<lambda>p :: int \<times> int. (fst p + r) * (r * 2 + 1) + (snd p + r)"
  let ?val = "\<lambda>p :: int \<times> int. exp (- of_int (snd p * snd p + fst p * fst p) / (2 * sg * sg))"
  let ?a = "replicate (nat ((r * 2 + 1) * (r * 2 + 1))) (0::real)"
  have mem: "(dy, dx) \<in> set (List.product [- r..r] [- r..r])"
    using assms by simp
  have lo: "0 \<le> ?idx (dy, dx)" using assms by simp
  have "(dy + r) * (r * 2 + 1) \<le> (r * 2) * (r * 2 + 1)"
    using assms by (intro mult_right_mono) simp_all
  then have "?idx (dy, dx) < (r * 2 + 1) * (r * 2 + 1)"
    using assms by (simp add: algebra_simps)
  then have hi: "?idx (dy, dx) < int (length ?a)" using assms by simp
  from assign_fold_hit [of ?idx "List.product [- r..r] [- r..r]" "(dy, dx)" ?a ?val,
      OF kernel_index_distinct mem lo hi]
  show ?thesis
    by (simp add: compute_kernel_weights)
qed

lemma fresh_kernel_eq: "fresh_kernel sg = compute_kernel sg \<lceil>sg * 3\<rceil>"
  by (simp add: fresh_kernel_def getGaussianKernel_def sigmasCoverage_def Let_def)

lemma fresh_kernel_sigma [simp]: "k_sigma (fresh_kernel sg) = sg"
  by (simp add: fresh_kernel_eq)

lemma getGaussianKernel_None:
  "getGaussianKernel sg None = (fresh_kernel sg, Some (fresh_kernel sg))"
  by (simp add: fresh_kernel_eq getGaussianKernel_def sigmasCoverage_def Let_def)

lemma getGaussianKernel_Some:
  "getGaussianKernel sg (Some cached) =
     (if \<bar>k_sigma cached - sg\<bar> < 1 / 1000 then (cached, Some cached)
      else (fresh_kernel sg, Some (fresh_kernel sg)))"
  by (simp add: fresh_kernel_eq getGaussianKernel_def sigmasCoverage_def Let_def)

lemma kernel_calls_cached:
  assumes "cache = None \<or> (\<exists>s \<in> prev. cache = Some (fresh_kernel s))" "i < length sgs"
  shows "\<exists>s \<in> prev \<union> set (take (Suc i) sgs).
           \<bar>s - sgs ! i\<bar> < 1 / 1000 \<and> kernel_calls sgs cache ! i = fresh_kernel s"
  using assms
proof (induction sgs arbitrary: cache prev i)
  case Nil
  then show ?case by simp
next
  case (Cons sg rest)
  obtain k cache' where step: "getGaussianKernel sg cache = (k, cache')"
    by (cases "getGaussianKernel sg cache")
  from Cons.prems(1) step
  have k: "cache' = Some k" "\<exists>s \<in> insert sg prev. \<bar>s - sg\<bar> < 1 / 1000 \<and> k = fresh_kernel s"
    by (auto simp add: getGaussianKernel_None getGaussianKernel_Some split: if_splits)
  show ?case
  proof (cases i)
    case 0
    with k step show ?thesis by auto
  next
    case (Suc j)
    with Cons.prems(2) have j: "j < length rest" by simp
    from k have "cache' = None \<or> (\<exists>s \<in> insert sg prev. cache' = Some (fresh_kernel s))"
      by auto
    from Cons.IH [OF this j]
    obtain s where "s \<in> insert sg prev \<union> set (take (Suc j) rest)"
      "\<bar>s - rest ! j\<bar> < 1 / 1000" "kernel_calls rest cache' ! j = fresh_kernel s"
      by blast
    with Suc step show ?thesis by auto
  qed
qed

text \<open>
  Claim C8, as amended. A fresh (uncached) computation for \<open>sigma\<close> gives radius
  \<open>ceil(3 * sigma)\<close>, a weight array of \<open>(2 * radius + 1)\<^sup>2\<close> entries and, for a nonzero
  \<open>sigma\<close>, \<open>weight(dx, dy) = exp(-(dx\<^sup>2 + dy\<^sup>2) / (2 * sigma\<^sup>2))\<close> at the entry of
  \<open>(dx, dy)\<close>. A call returns the cached kernel when the cached sigma is less than 0.001
  away from the requested one, and recomputes (and caches) otherwise. So in every
  sequence of calls from the empty cache, each call returns the fresh kernel of a sigma
  requested in that call or in an earlier one, less than 0.001 away from the sigma it
  was asked for; when the requested sigmas are pairwise equal or at least 0.001 apart,
  each call returns exactly the fresh kernel of its own sigma.
\<close>

theorem kernel_cache_tolerance:
  "getGaussianKernel sg None = (fresh_kernel sg, Some (fresh_kernel sg)) \<and>
   getGaussianKernel sg (Some (fresh_kernel s0)) =
     (if \<bar>s0 - sg\<bar> < 1 / 1000 then (fresh_kernel s0, Some (fresh_kernel s0))
      else (fresh_kernel sg, Some (fresh_kernel sg))) \<and>
   (\<forall>i < length sgs. \<exists>s \<in> set (take (Suc i) sgs).
      \<bar>s - sgs ! i\<bar> < 1 / 1000 \<and> kernel_calls sgs None ! i = fresh_kernel s) \<and>
   ((\<forall>s \<in> set sgs. \<forall>t \<in> set sgs. s = t \<or> 1 / 1000 \<le> \<bar>s - t\<bar>) \<longrightarrow>
      kernel_calls sgs None = map fresh_kernel sgs) \<and>
   k_radius (fresh_kernel sg) = \<lceil>sg * 3\<rceil> \<and> k_sigma (fresh_kernel sg) = sg \<and>
   length (k_weights (fresh_kernel sg)) = nat ((2 * \<lceil>sg * 3\<rceil> + 1)\<^sup>2) \<and>
   (\<forall>dx dy. - \<lceil>sg * 3\<rceil> \<le> dx \<and> dx \<le> \<lceil>sg * 3\<rceil> \<and> - \<lceil>sg * 3\<rceil> \<le> dy \<and> dy \<le> \<lceil>sg * 3\<rceil> \<and> sg \<noteq> 0 \<longrightarrow>
      k_weights (fresh_kernel sg) ! nat ((dy + \<lceil>sg * 3\<rceil>) * (2 * \<lceil>sg * 3\<rceil> + 1) + (dx + \<lceil>sg * 3\<rceil>)) =
        exp (- (of_int (dx\<^sup>2 + dy\<^sup>2)) / (2 * sg\<^sup>2)))"
proof -
  have calls: "\<exists>s \<in> set (take (Suc i) sgs).
      \<bar>s - sgs ! i\<bar> < 1 / 1000 \<and> kernel_calls sgs None ! i = fresh_kernel s"
    if "i < length sgs" for i
    using kernel_calls_cached [of None "{}" i sgs] that by simp
  have len: "length (kernel_calls xs c) = length xs" for xs c
    by (induction xs arbitrary: c) (simp_all split: prod.splits)
  have exact: "kernel_calls sgs None = map fresh_kernel sgs"
    if sep: "\<forall>s \<in> set sgs. \<forall>t \<in> set sgs. s = t \<or> 1 / 1000 \<le> \<bar>s - t\<bar>"
  proof (rule nth_equalityI)
    show "length (kernel_calls sgs None) = length (map fresh_kernel sgs)"
      by (simp add: len)
  next
    fix i assume "i < length (kernel_calls sgs None)"
    then have i: "i < length sgs" by (simp add: len)
    from calls [OF i] obtain s where s: "s \<in> set (take (Suc i) sgs)"
      "\<bar>s - sgs ! i\<bar> < 1 / 1000" "kernel_calls sgs None ! i = fresh_kernel s"
      by blast
    from s(1) have "s \<in> set sgs" by (rule in_set_takeD)
    moreover from i have "sgs ! i \<in> set sgs" by simp
    ultimately have "s = sgs ! i" using sep s(2) by fastforce
    with s(3) i show "kernel_calls sgs None ! i = map fresh_kernel sgs ! i" by simp
  qed
  have weight: "k_weights (fresh_kernel sg) ! nat ((dy + \<lceil>sg * 3\<rceil>) * (2 * \<lceil>sg * 3\<rceil> + 1) + (dx + \<lceil>sg * 3\<rceil>)) =
        exp (- (of_int (dx\<^sup>2 + dy\<^sup>2)) / (2 * sg\<^sup>2))"
    if "- \<lceil>sg * 3\<rceil> \<le> dx" "dx \<le> \<lceil>sg * 3\<rceil>" "- \<lceil>sg * 3\<rceil> \<le> dy" "dy \<le> \<lceil>sg * 3\<rceil>" for dx dy
    using compute_kernel_weight [OF that, of sg]
    by (simp add: fresh_kernel_eq power2_eq_square mult.commute)
  have l: "length (k_weights (fresh_kernel sg)) = nat ((2 * \<lceil>sg * 3\<rceil> + 1)\<^sup>2)"
    by (simp add: fresh_kernel_eq compute_kernel_length power2_eq_square mult.commute)
  have rad: "k_radius (fresh_kernel sg) = \<lceil>sg * 3\<rceil>"
    by (simp add: fresh_kernel_eq)
  have some: "getGaussianKernel sg (Some (fresh_kernel s0)) =
     (if \<bar>s0 - sg\<bar> < 1 / 1000 then (fresh_kernel s0, Some (fresh_kernel s0))
      else (fresh_kernel sg, Some (fresh_kernel sg)))"
    by (simp only: getGaussianKernel_Some fresh_kernel_sigma)
  show ?thesis
    using getGaussianKernel_None [of sg] some calls exact rad fresh_kernel_sigma [of sg] l weight
    by blast
qed

text \<open>
  The claim as stated fails: after a call with sigma 1, a call with sigma 1.0005
  returns the cached kernel of radius 3, while a fresh computation for 1.0005 has
  radius 4.
\<close>

theorem kernel_cache_counterexample:
  "k_radius (kernel_calls [1, 2001 / 2000] None ! 1) = 3 \<and>
   k_radius (fresh_kernel (2001 / 2000)) = 4"
proof -
  have "kernel_calls [1, 2001 / 2000] None = [fresh_kernel 1, fresh_kernel 1]"
    by (simp add: getGaussianKernel_None getGaussianKernel_Some)
  then have "k_radius (kernel_calls [1, 2001 / 2000] None ! 1) = \<lceil>(1::real) * 3\<rceil>"
    by (simp add: fresh_kernel_eq)
  moreover have "k_radius (fresh_kernel (2001 / 2000)) = \<lceil>(2001 / 2000 :: real) * 3\<rceil>"
    by (simp add: fresh_kernel_eq)
  ultimately show ?thesis by simp
qed

theorem kernel_cache_tolerance_witness:
  "1 / 1000 \<le> \<bar>(1::real) - 2\<bar> \<and>
   kernel_calls [1, 2, 1] None = [fresh_kernel 1, fresh_kernel 2, fresh_kernel 1] \<and>
   \<bar>(1::real) - 2001 / 2000\<bar> < 1 / 1000 \<and>
   getGaussianKernel (2001 / 2000) (Some (fresh_kernel 1)) = (fresh_kernel 1, Some (fresh_kernel 1)) \<and>
   k_radius (fresh_kernel 1) = 3 \<and>
   length (k_weights (fresh_kernel 1)) = 49 \<and>
   k_weights (fresh_kernel 1) ! 25 = exp (- 1 / 2)"
proof -
  have sep: "\<forall>s \<in> set [1, 2, 1 :: real]. \<forall>t \<in> set [1, 2, 1]. s = t \<or> 1 / 1000 \<le> \<bar>s - t\<bar>"
    by simp
  from kernel_cache_tolerance [of 1 1 "[1, 2, 1]"] sep
  have calls: "kernel_calls [1, 2, 1] None = map fresh_kernel [1, 2, 1]"
    by blast
  from kernel_cache_tolerance [of "2001 / 2000" 1 "[]"]
  have "getGaussianKernel (2001 / 2000) (Some (fresh_kernel 1)) =
     (if \<bar>(1::real) - 2001 / 2000\<bar> < 1 / 1000 then (fresh_kernel 1, Some (fresh_kernel 1))
      else (fresh_kernel (2001 / 2000), Some (fresh_kernel (2001 / 2000))))"
    by blast
  then have hit: "getGaussianKernel (2001 / 2000) (Some (fresh_kernel 1)) =
      (fresh_kernel 1, Some (fresh_kernel 1))"
    by simp
  note t = kernel_cache_tolerance [of 1 1 "[]"]
  from t have rad: "k_radius (fresh_kernel 1) = 3" by simp
  from t have len: "length (k_weights (fresh_kernel 1)) = 49" by simp
  from t have "\<forall>dx dy. - \<lceil>(1::real) * 3\<rceil> \<le> dx \<and> dx \<le> \<lceil>(1::real) * 3\<rceil> \<and>
      - \<lceil>(1::real) * 3\<rceil> \<le> dy \<and> dy \<le> \<lceil>(1::real) * 3\<rceil> \<and> (1::real) \<noteq> 0 \<longrightarrow>
      k_weights (fresh_kernel 1) ! nat ((dy + \<lceil>(1::real) * 3\<rceil>) * (2 * \<lceil>(1::real) * 3\<rceil> + 1)
          + (dx + \<lceil>(1::real) * 3\<rceil>)) =
        exp (- (of_int (dx\<^sup>2 + dy\<^sup>2)) / (2 * 1\<^sup>2))"
    by blast
  from this [rule_format, of 1 0]
  have w: "k_weights (fresh_kernel 1) ! 25 = exp (- 1 / 2)"
    by simp
  from calls hit rad len w show ?thesis by simp
qed


subsection \<open>The Gaussian accumulator\<close>

lemma fold_guard:
  "fold (\<lambda>x s. if P x then s else g x s) xs s = fold g (filter (\<lambda>x. \<not> P x) xs) s"
  by (induction xs arbitrary: s) simp_all

lemma add_at_written [simp]: "acc_written (add_at i x st) = acc_written st @ [i]"
  by (simp add: add_at_def)

lemma add_at_length [simp]: "length (acc_buffer (add_at i x st)) = length (acc_buffer st)"
  by (simp add: add_at_def)

lemma add_at_other: "i \<noteq> int j \<Longrightarrow> acc_buffer (add_at i x st) ! j = acc_buffer st ! j"
  by (simp add: add_at_def f32_write_other)

lemma add_at_same:
  "0 \<le> i \<Longrightarrow> i < int (length (acc_buffer st)) \<Longrightarrow>
   acc_buffer (add_at i x st) ! nat i = acc_buffer st ! nat i + x"
  by (simp add: add_at_def f32_write_same f32_read_def)

text \<open>A sequence of additions at distinct indices of a buffer, with the log of the indices.\<close>

lemma add_fold_written:
  "acc_written (fold (\<lambda>p. add_at (bi p) (v p)) ps st) =
     acc_written st @ map bi ps"
  by (induction ps arbitrary: st) simp_all

lemma add_fold_length:
  "length (acc_buffer (fold (\<lambda>p. add_at (bi p) (v p)) ps st)) =
     length (acc_buffer st)"
  by (induction ps arbitrary: st) simp_all

lemma add_fold_other:
  "\<forall>p \<in> set ps. bi p \<noteq> int j \<Longrightarrow>
   acc_buffer (fold (\<lambda>p. add_at (bi p) (v p)) ps st) ! j =
     acc_buffer st ! j"
  by (induction ps arbitrary: st) (simp_all add: add_at_other)

lemma add_fold_hit:
  assumes "distinct (map bi ps)" "p \<in> set ps" "0 \<le> bi p" "bi p < int (length (acc_buffer st))"
  shows "acc_buffer (fold (\<lambda>p. add_at (bi p) (v p)) ps st) ! nat (bi p) =
     acc_buffer st ! nat (bi p) + v p"
  using assms
proof (induction ps arbitrary: st)
  case Nil
  then show ?case by simp
next
  case (Cons q ps)
  let ?st = "add_at (bi q) (v q) st"
  show ?case
  proof (cases "p = q")
    case True
    from Cons.prems(1) have "bi q \<notin> bi ` set ps" by simp
    moreover from Cons.prems(3) True have "int (nat (bi q)) = bi q" by simp
    ultimately have "\<forall>r \<in> set ps. bi r \<noteq> int (nat (bi q))"
      by (metis imageI)
    then have "acc_buffer (fold (\<lambda>p. add_at (bi p) (v p)) ps ?st) ! nat (bi q)
        = acc_buffer ?st ! nat (bi q)"
      by (rule add_fold_other)
    with True Cons.prems(3,4) show ?thesis
      by (simp add: add_at_same)
  next
    case False
    with Cons.prems have p: "p \<in> set ps" "distinct (map bi ps)" by simp_all
    from p(2) False Cons.prems(1) p(1) have "bi q \<noteq> bi p" by auto
    then have "bi q \<noteq> int (nat (bi p))" using Cons.prems(3) by simp
    then have "acc_buffer ?st ! nat (bi p) = acc_buffer st ! nat (bi p)"
      by (simp add: add_at_other)
    moreover have "length (acc_buffer ?st) = length (acc_buffer st)"
      by simp
    ultimately show ?thesis
      using Cons.IH [of ?st, OF p(2) p(1) Cons.prems(3)] Cons.prems(4) by simp
  qed
qed

lemma accumulate_px_fun:
  "accumulate_px width startX ks intensity weights ky py =
     (\<lambda>kx st. if startX + kx < 0 \<or> width \<le> startX + kx then st
               else add_at (py * width + (startX + kx))
                      (intensity * f32_read weights (ky * ks + kx)) st)"
  by (intro ext) (simp add: accumulate_px_def Let_def)

lemma accumulate_row_fun:
  "accumulate_row width height startX startY ks intensity weights =
     (\<lambda>ky st. if startY + ky < 0 \<or> height \<le> startY + ky then st
               else fold (\<lambda>kx. add_at ((startY + ky) * width + (startX + kx))
                                 (intensity * f32_read weights (ky * ks + kx)))
                      (filter (\<lambda>kx. \<not> (startX + kx < 0 \<or> width \<le> startX + kx)) [0..ks - 1]) st)"
  by (intro ext) (simp add: accumulate_row_def Let_def accumulate_px_fun fold_guard)

lemma accumulateGaussian_run_cells:
  "accumulateGaussian_run buffer width height cx cy intensity kern =
     fold (\<lambda>p. add_at ((\<lfloor>cy\<rfloor> - k_radius kern + fst p) * width + (\<lfloor>cx\<rfloor> - k_radius kern + snd p))
                  (intensity * f32_read (k_weights kern) (fst p * (k_radius kern * 2 + 1) + snd p)))
       (kernel_cells width height (\<lfloor>cx\<rfloor> - k_radius kern) (\<lfloor>cy\<rfloor> - k_radius kern)
          (k_radius kern * 2 + 1))
       \<lparr> acc_buffer = buffer, acc_written = [] \<rparr>"
  by (simp only: accumulateGaussian_run_def Let_def accumulate_row_fun fold_guard
      fold_fold_product kernel_cells_def)

lemma kernel_cells_mem:
  "p \<in> set (kernel_cells width height sx sy ks) \<longleftrightarrow>
     0 \<le> fst p \<and> fst p < ks \<and> 0 \<le> sy + fst p \<and> sy + fst p < height \<and>
     0 \<le> snd p \<and> snd p < ks \<and> 0 \<le> sx + snd p \<and> sx + snd p < width"
  by (cases p) (auto simp add: kernel_cells_def)

lemma kernel_cells_distinct: "distinct (kernel_cells width height sx sy ks)"
  by (simp add: kernel_cells_def distinct_product)

lemma kernel_cells_index_distinct:
  "distinct (map (\<lambda>p. (sy + fst p) * width + (sx + snd p)) (kernel_cells width height sx sy ks))"
proof -
  have "inj_on (\<lambda>p. (sy + fst p) * width + (sx + snd p)) (set (kernel_cells width height sx sy ks))"
  proof (rule inj_onI)
    fix p q :: "int \<times> int"
    assume p: "p \<in> set (kernel_cells width height sx sy ks)"
      and q: "q \<in> set (kernel_cells width height sx sy ks)"
      and e: "(sy + fst p) * width + (sx + snd p) = (sy + fst q) * width + (sx + snd q)"
    from p q have "0 \<le> sx + snd p" "sx + snd p < width" "0 \<le> sx + snd q" "sx + snd q < width"
      by (simp_all add: kernel_cells_mem)
    from cell_index_inj [OF this e] show "p = q"
      by (simp add: prod_eq_iff)
  qed
  then show ?thesis
    by (simp add: distinct_map kernel_cells_distinct)
qed

lemma cell_index_bounds:
  fixes px py width height :: int
  assumes "0 \<le> px" "px < width" "0 \<le> py" "py < height"
  shows "0 \<le> py * width + px" "py * width + px < width * height"
proof -
  from assms show "0 \<le> py * width + px" by simp
  have "py * width \<le> (height - 1) * width"
    using assms by (intro mult_right_mono) simp_all
  then show "py * width + px < width * height"
    using assms by (simp add: algebra_simps)
qed

text \<open>
  Claim C7. For a buffer of \<open>width * height\<close> cells and a kernel of radius \<open>r\<close> (with
  its \<open>(2r + 1)\<^sup>2\<close> weights), a call of \<open>accumulateGaussian\<close> adds
  \<open>intensity * weight\<close> to exactly the cells \<open>(px, py)\<close> that lie in the
  \<open>(2r + 1) \<times> (2r + 1)\<close> square around the floored centre and inside
  \<open>0 \<le> px < width\<close>, \<open>0 \<le> py < height\<close>, the weight being the kernel entry of the cell's
  offset in the square; every other cell keeps its value and the buffer keeps its
  length. The indices at which the update statement runs are exactly the indices of
  those cells, each once, and all of them are inside the buffer: kernel cells outside
  the bounds are skipped, neither wrapped around nor clamped to the edge.
\<close>

theorem accumulateGaussian_frame:
  assumes dims: "length buffer = nat (width * height)"
    and wf: "length (k_weights kern) = nat ((k_radius kern * 2 + 1)\<^sup>2)"
  shows
   "length (accumulateGaussian buffer width height cx cy intensity kern) = length buffer \<and>
    (\<forall>px py. 0 \<le> px \<and> px < width \<and> 0 \<le> py \<and> py < height \<longrightarrow>
       accumulateGaussian buffer width height cx cy intensity kern ! nat (py * width + px) =
         (if \<lfloor>cx\<rfloor> - k_radius kern \<le> px \<and> px \<le> \<lfloor>cx\<rfloor> + k_radius kern \<and>
             \<lfloor>cy\<rfloor> - k_radius kern \<le> py \<and> py \<le> \<lfloor>cy\<rfloor> + k_radius kern
          then buffer ! nat (py * width + px) +
               intensity * k_weights kern !
                 nat ((py - (\<lfloor>cy\<rfloor> - k_radius kern)) * (k_radius kern * 2 + 1)
                      + (px - (\<lfloor>cx\<rfloor> - k_radius kern)))
          else buffer ! nat (py * width + px))) \<and>
    (\<forall>px py. \<lfloor>cx\<rfloor> - k_radius kern \<le> px \<and> px \<le> \<lfloor>cx\<rfloor> + k_radius kern \<and>
             \<lfloor>cy\<rfloor> - k_radius kern \<le> py \<and> py \<le> \<lfloor>cy\<rfloor> + k_radius kern \<longrightarrow>
       nat ((py - (\<lfloor>cy\<rfloor> - k_radius kern)) * (k_radius kern * 2 + 1)
            + (px - (\<lfloor>cx\<rfloor> - k_radius kern))) < length (k_weights kern)) \<and>
    set (acc_written (accumulateGaussian_run buffer width height cx cy intensity kern)) =
      {py * width + px | px py.
         0 \<le> px \<and> px < width \<and> 0 \<le> py \<and> py < height \<and>
         \<lfloor>cx\<rfloor> - k_radius kern \<le> px \<and> px \<le> \<lfloor>cx\<rfloor> + k_radius kern \<and>
         \<lfloor>cy\<rfloor> - k_radius kern \<le> py \<and> py \<le> \<lfloor>cy\<rfloor> + k_radius kern} \<and>
    distinct (acc_written (accumulateGaussian_run buffer width height cx cy intensity kern)) \<and>
    (\<forall>i \<in> set (acc_written (accumulateGaussian_run buffer width height cx cy intensity kern)).
       0 \<le> i \<and> i < int (length buffer))"
proof -
  define r where "r = k_radius kern"
  define sx where "sx = \<lfloor>cx\<rfloor> - r"
  define sy where "sy = \<lfloor>cy\<rfloor> - r"
  define ks where "ks = r * 2 + 1"
  define cells where "cells = kernel_cells width height sx sy ks"
  define bi where "bi = (\<lambda>p :: int \<times> int. (sy + fst p) * width + (sx + snd p))"
  define v where "v = (\<lambda>p :: int \<times> int. intensity * f32_read (k_weights kern) (fst p * ks + snd p))"
  define st0 where "st0 = \<lparr> acc_buffer = buffer, acc_written = [] \<rparr>"
  have run: "accumulateGaussian_run buffer width height cx cy intensity kern =
      fold (\<lambda>p. add_at (bi p) (v p)) cells st0"
    unfolding accumulateGaussian_run_cells cells_def bi_def v_def st0_def sx_def sy_def ks_def r_def
    by simp
  have buf0: "acc_buffer st0 = buffer" and log0: "acc_written st0 = []"
    by (simp_all add: st0_def)
  have mem: "p \<in> set cells \<longleftrightarrow>
      0 \<le> fst p \<and> fst p < ks \<and> 0 \<le> sy + fst p \<and> sy + fst p < height \<and>
      0 \<le> snd p \<and> snd p < ks \<and> 0 \<le> sx + snd p \<and> sx + snd p < width" for p
    unfolding cells_def by (rule kernel_cells_mem)
  have dist: "distinct (map bi cells)"
    unfolding cells_def bi_def by (rule kernel_cells_index_distinct)
  have written: "acc_written (accumulateGaussian_run buffer width height cx cy intensity kern) = map bi cells"
    by (simp add: run add_fold_written log0)
  have inside: "0 \<le> bi p \<and> bi p < int (length buffer)" if "p \<in> set cells" for p
  proof -
    from that have b: "0 \<le> sx + snd p" "sx + snd p < width" "0 \<le> sy + fst p" "sy + fst p < height"
      by (simp_all add: mem)
    from cell_index_bounds [OF b] b show ?thesis
      by (simp add: bi_def dims)
  qed
  have len: "length (accumulateGaussian buffer width height cx cy intensity kern) = length buffer"
    by (simp add: accumulateGaussian_def run add_fold_length buf0)
  have cell: "accumulateGaussian buffer width height cx cy intensity kern ! nat (py * width + px) =
         (if \<lfloor>cx\<rfloor> - k_radius kern \<le> px \<and> px \<le> \<lfloor>cx\<rfloor> + k_radius kern \<and>
             \<lfloor>cy\<rfloor> - k_radius kern \<le> py \<and> py \<le> \<lfloor>cy\<rfloor> + k_radius kern
          then buffer ! nat (py * width + px) +
               intensity * k_weights kern !
                 nat ((py - (\<lfloor>cy\<rfloor> - k_radius kern)) * (k_radius kern * 2 + 1)
                      + (px - (\<lfloor>cx\<rfloor> - k_radius kern)))
          else buffer ! nat (py * width + px))"
    if b: "0 \<le> px" "px < width" "0 \<le> py" "py < height" for px py
  proof (cases "\<lfloor>cx\<rfloor> - k_radius kern \<le> px \<and> px \<le> \<lfloor>cx\<rfloor> + k_radius kern \<and>
             \<lfloor>cy\<rfloor> - k_radius kern \<le> py \<and> py \<le> \<lfloor>cy\<rfloor> + k_radius kern")
    case True
    let ?p = "(py - sy, px - sx)"
    from True b have p: "?p \<in> set cells" by (simp add: mem ks_def sx_def sy_def r_def)
    have bp: "bi ?p = py * width + px" by (simp add: bi_def)
    from inside [OF p] have "0 \<le> bi ?p" "bi ?p < int (length (acc_buffer st0))"
      by (simp_all add: buf0)
    from add_fold_hit [OF dist p this, of v]
    have "accumulateGaussian buffer width height cx cy intensity kern ! nat (py * width + px) =
        buffer ! nat (py * width + px) + v ?p"
      by (simp add: accumulateGaussian_def run bp buf0)
    moreover have "v ?p = intensity * k_weights kern !
                 nat ((py - (\<lfloor>cy\<rfloor> - k_radius kern)) * (k_radius kern * 2 + 1)
                      + (px - (\<lfloor>cx\<rfloor> - k_radius kern)))"
      by (simp add: v_def f32_read_def sx_def sy_def ks_def r_def)
    ultimately show ?thesis
      by (simp only: True simp_thms if_True)
  next
    case False
    have "\<forall>p \<in> set cells. bi p \<noteq> int (nat (py * width + px))"
    proof
      fix p assume p: "p \<in> set cells"
      show "bi p \<noteq> int (nat (py * width + px))"
      proof
        assume "bi p = int (nat (py * width + px))"
        with b have e: "(sy + fst p) * width + (sx + snd p) = py * width + px"
          by (simp add: bi_def)
        from p have "0 \<le> sx + snd p" "sx + snd p < width" by (simp_all add: mem)
        from cell_index_inj [OF this b(1,2) e] have "sx + snd p = px" "sy + fst p = py"
          by simp_all
        with p have "\<lfloor>cx\<rfloor> - k_radius kern \<le> px \<and> px \<le> \<lfloor>cx\<rfloor> + k_radius kern \<and>
             \<lfloor>cy\<rfloor> - k_radius kern \<le> py \<and> py \<le> \<lfloor>cy\<rfloor> + k_radius kern"
          by (auto simp add: mem ks_def sx_def sy_def r_def)
        with False show False by blast
      qed
    qed
    then have "accumulateGaussian buffer width height cx cy intensity kern ! nat (py * width + px) =
        buffer ! nat (py * width + px)"
      by (simp add: accumulateGaussian_def run add_fold_other buf0)
    then show ?thesis
      by (simp only: False simp_thms if_False)
  qed
  have wset: "set (map bi cells) =
      {py * width + px | px py.
         0 \<le> px \<and> px < width \<and> 0 \<le> py \<and> py < height \<and>
         \<lfloor>cx\<rfloor> - k_radius kern \<le> px \<and> px \<le> \<lfloor>cx\<rfloor> + k_radius kern \<and>
         \<lfloor>cy\<rfloor> - k_radius kern \<le> py \<and> py \<le> \<lfloor>cy\<rfloor> + k_radius kern}"
    (is "?L = ?R")
  proof (rule set_eqI)
    fix i
    show "i \<in> ?L \<longleftrightarrow> i \<in> ?R"
    proof
      assume "i \<in> ?L"
      then obtain p where p: "p \<in> set cells" and i: "i = bi p" by auto
      from p have "0 \<le> sx + snd p \<and> sx + snd p < width \<and> 0 \<le> sy + fst p \<and> sy + fst p < height \<and>
         \<lfloor>cx\<rfloor> - k_radius kern \<le> sx + snd p \<and> sx + snd p \<le> \<lfloor>cx\<rfloor> + k_radius kern \<and>
         \<lfloor>cy\<rfloor> - k_radius kern \<le> sy + fst p \<and> sy + fst p \<le> \<lfloor>cy\<rfloor> + k_radius kern"
        by (auto simp add: mem ks_def sx_def sy_def r_def)
      with i show "i \<in> ?R" unfolding bi_def by blast
    next
      assume "i \<in> ?R"
      then obtain px py where i: "i = py * width + px"
        and b: "0 \<le> px" "px < width" "0 \<le> py" "py < height"
        and f: "\<lfloor>cx\<rfloor> - k_radius kern \<le> px" "px \<le> \<lfloor>cx\<rfloor> + k_radius kern"
          "\<lfloor>cy\<rfloor> - k_radius kern \<le> py" "py \<le> \<lfloor>cy\<rfloor> + k_radius kern"
        by blast
      from b f have "(py - sy, px - sx) \<in> set cells"
        by (simp add: mem ks_def sx_def sy_def r_def)
      moreover have "bi (py - sy, px - sx) = i" by (simp add: bi_def i)
      ultimately show "i \<in> ?L" by force
    qed
  qed
  have bounds: "\<forall>i \<in> set (map bi cells). 0 \<le> i \<and> i < int (length buffer)"
    using inside by auto
  have widx: "nat ((py - (\<lfloor>cy\<rfloor> - k_radius kern)) * (k_radius kern * 2 + 1)
            + (px - (\<lfloor>cx\<rfloor> - k_radius kern))) < length (k_weights kern)"
    if f: "\<lfloor>cx\<rfloor> - k_radius kern \<le> px" "px \<le> \<lfloor>cx\<rfloor> + k_radius kern"
          "\<lfloor>cy\<rfloor> - k_radius kern \<le> py" "py \<le> \<lfloor>cy\<rfloor> + k_radius kern" for px py
  proof -
    from f have a: "0 \<le> px - sx" "px - sx < ks" "0 \<le> py - sy" "py - sy < ks"
      by (simp_all add: sx_def sy_def ks_def r_def)
    from cell_index_bounds [OF a] have "(py - sy) * ks + (px - sx) < ks * ks" by simp
    moreover from a have "0 < ks * ks" by simp
    ultimately have "nat ((py - sy) * ks + (px - sx)) < nat (ks * ks)" by simp
    then show ?thesis
      by (simp add: wf power2_eq_square sx_def sy_def ks_def r_def)
  qed
  from len cell widx wset dist bounds show ?thesis
    unfolding written by blast
qed

theorem accumulateGaussian_frame_witness:
  "length [0, 0, 0, 0, 0, 0 :: real] = nat (3 * 2) \<and>
   length (k_weights \<lparr>k_weights = [1, 2, 3, 4, 5, 6, 7, 8, 9], k_radius = 1, k_sigma = 1\<rparr>) =
     nat ((k_radius \<lparr>k_weights = [1, 2, 3, 4, 5, 6, 7, 8, 9], k_radius = 1, k_sigma = 1\<rparr> * 2 + 1)\<^sup>2) \<and>
   length (accumulateGaussian [0, 0, 0, 0, 0, 0] 3 2 (1 / 2) (1 / 2) 2
      \<lparr>k_weights = [1, 2, 3, 4, 5, 6, 7, 8, 9], k_radius = 1, k_sigma = 1\<rparr>) = 6 \<and>
   accumulateGaussian [0, 0, 0, 0, 0, 0] 3 2 (1 / 2) (1 / 2) 2
      \<lparr>k_weights = [1, 2, 3, 4, 5, 6, 7, 8, 9], k_radius = 1, k_sigma = 1\<rparr> ! 4 = 18 \<and>
   accumulateGaussian [0, 0, 0, 0, 0, 0] 3 2 (1 / 2) (1 / 2) 2
      \<lparr>k_weights = [1, 2, 3, 4, 5, 6, 7, 8, 9], k_radius = 1, k_sigma = 1\<rparr> ! 2 = 0 \<and>
   acc_written (accumulateGaussian_run [0, 0, 0, 0, 0, 0] 3 2 (1 / 2) (1 / 2) 2
      \<lparr>k_weights = [1, 2, 3, 4, 5, 6, 7, 8, 9], k_radius = 1, k_sigma = 1\<rparr>) = [0, 1, 3, 4]"
proof -
  let ?k = "\<lparr>k_weights = [1, 2, 3, 4, 5, 6, 7, 8, 9 :: real], k_radius = 1, k_sigma = 1\<rparr>"
  have d: "length [0, 0, 0, 0, 0, 0 :: real] = nat (3 * 2)" by simp
  have w: "length (k_weights ?k) = nat ((k_radius ?k * 2 + 1)\<^sup>2)" by simp
  note t = accumulateGaussian_frame [OF d w, where cx = "1 / 2" and cy = "1 / 2" and intensity = 2]
  from t have l: "length (accumulateGaussian [0, 0, 0, 0, 0, 0] 3 2 (1 / 2) (1 / 2) 2 ?k) = 6"
    by simp
  from t have c: "\<forall>px py. 0 \<le> px \<and> px < 3 \<and> 0 \<le> py \<and> py < 2 \<longrightarrow>
       accumulateGaussian [0, 0, 0, 0, 0, 0] 3 2 (1 / 2) (1 / 2) 2 ?k ! nat (py * 3 + px) =
         (if \<lfloor>1 / 2 :: real\<rfloor> - k_radius ?k \<le> px \<and> px \<le> \<lfloor>1 / 2 :: real\<rfloor> + k_radius ?k \<and>
             \<lfloor>1 / 2 :: real\<rfloor> - k_radius ?k \<le> py \<and> py \<le> \<lfloor>1 / 2 :: real\<rfloor> + k_radius ?k
          then [0, 0, 0, 0, 0, 0] ! nat (py * 3 + px) +
               2 * k_weights ?k !
                 nat ((py - (\<lfloor>1 / 2 :: real\<rfloor> - k_radius ?k)) * (k_radius ?k * 2 + 1)
                      + (px - (\<lfloor>1 / 2 :: real\<rfloor> - k_radius ?k)))
          else [0, 0, 0, 0, 0, 0] ! nat (py * 3 + px))"
    by blast
  from c [rule_format, of 1 1]
  have c4: "accumulateGaussian [0, 0, 0, 0, 0, 0] 3 2 (1 / 2) (1 / 2) 2 ?k ! 4 = 18"
    by simp
  from c [rule_format, of 2 0]
  have c2: "accumulateGaussian [0, 0, 0, 0, 0, 0] 3 2 (1 / 2) (1 / 2) 2 ?k ! 2 = 0"
    by simp
  have r: "acc_written (accumulateGaussian_run [0, 0, 0, 0, 0, 0] 3 2 (1 / 2) (1 / 2) 2 ?k) = [0, 1, 3, 4]"
    by (simp add: accumulateGaussian_run_def accumulate_row_def accumulate_px_def Let_def
        upto.simps add_at_def)
  from d w l c4 c2 r show ?thesis by blast
qed


subsection \<open>Energy normalisation\<close>

lemma spot_fold_calls:
  "r_calls (fold (spot_step cps cfg w h k en) ps st) =
     r_calls st @
     map (\<lambda>p. (fst (scaledToCanvas (fp_x p) (fp_y p) cps (cfg_characterScale cfg)
                      (cfg_originOffsetX cfg) (cfg_originOffsetY cfg)),
               snd (scaledToCanvas (fp_x p) (fp_y p) cps (cfg_characterScale cfg)
                      (cfg_originOffsetX cfg) (cfg_originOffsetY cfg)),
               fp_z p * cfg_brightness cfg * en))
       (filter (\<lambda>p. beamThreshold \<le> fp_z p) ps)"
proof (induction ps arbitrary: st)
  case Nil
  show ?case by simp
next
  case (Cons p ps)
  show ?case
    by (simp add: Cons.IH) (simp add: spot_step_def Let_def split: prod.splits)
qed

lemma spot_fold_buffer:
  "r_buffer (fold (spot_step cps cfg w h k en) ps st) =
     fold (\<lambda>p buf. accumulateGaussian buf w h
                      (fst (scaledToCanvas (fp_x p) (fp_y p) cps (cfg_characterScale cfg)
                              (cfg_originOffsetX cfg) (cfg_originOffsetY cfg)))
                      (snd (scaledToCanvas (fp_x p) (fp_y p) cps (cfg_characterScale cfg)
                              (cfg_originOffsetX cfg) (cfg_originOffsetY cfg)))
                      (fp_z p * cfg_brightness cfg * en) k)
       (filter (\<lambda>p. beamThreshold \<le> fp_z p) ps) (r_buffer st)"
proof (induction ps arbitrary: st)
  case Nil
  show ?case by simp
next
  case (Cons p ps)
  show ?case
    by (simp add: Cons.IH) (simp add: spot_step_def Let_def split: prod.splits)
qed

text \<open>
  Claim C6. For a nonzero beam width and character scale, the buffer that the
  accumulation loop of \<open>renderCharacterGaussian\<close> leaves is the result of calling
  \<open>accumulateGaussian\<close>, in order, once for every filtered sample whose \<open>z\<close> is at least
  the beam threshold and for no other sample, each call at the canvas position of the
  sample and with the intensity argument
  \<open>z * brightness * (referenceSigma\<^sup>2 / sigma\<^sup>2)\<close>, where \<open>referenceSigma = 1\<close> and
  \<open>sigma = beamWidth * 0.5\<close>: the contribution of a spot is scaled by \<open>1 / sigma\<^sup>2\<close>.
  The logged arguments of the calls are the same, and \<open>renderCharacterGaussian\<close> runs
  this loop on the output of the physics pipeline unless the character has no vector
  data.
\<close>

theorem spot_intensity_normalised:
  assumes "cfg_beamWidth config \<noteq> 0" and "cfg_characterScale config \<noteq> 0"
  shows
  "r_buffer (fst (accumulate_spots positions cellPixelSize config gaussianKernel)) =
     fold (\<lambda>p buf. accumulateGaussian buf \<lceil>cellPixelSize\<rceil> \<lceil>cellPixelSize\<rceil>
                      (fst (scaledToCanvas (fp_x p) (fp_y p) cellPixelSize (cfg_characterScale config)
                              (cfg_originOffsetX config) (cfg_originOffsetY config)))
                      (snd (scaledToCanvas (fp_x p) (fp_y p) cellPixelSize (cfg_characterScale config)
                              (cfg_originOffsetX config) (cfg_originOffsetY config)))
                      (fp_z p * cfg_brightness config * (1\<^sup>2 / (cfg_beamWidth config * (1 / 2))\<^sup>2))
                      (fst (getGaussianKernel (cfg_beamWidth config * (1 / 2)) gaussianKernel)))
       (filter (\<lambda>p. beamThreshold \<le> fp_z p) positions)
       (replicate (nat (\<lceil>cellPixelSize\<rceil> * \<lceil>cellPixelSize\<rceil>)) 0) \<and>
   r_calls (fst (accumulate_spots positions cellPixelSize config gaussianKernel)) =
     map (\<lambda>p. (fst (scaledToCanvas (fp_x p) (fp_y p) cellPixelSize (cfg_characterScale config)
                      (cfg_originOffsetX config) (cfg_originOffsetY config)),
               snd (scaledToCanvas (fp_x p) (fp_y p) cellPixelSize (cfg_characterScale config)
                      (cfg_originOffsetX config) (cfg_originOffsetY config)),
               fp_z p * cfg_brightness config * (1\<^sup>2 / (cfg_beamWidth config * (1 / 2))\<^sup>2)))
       (filter (\<lambda>p. beamThreshold \<le> fp_z p) positions) \<and>
   fst (renderCharacterGaussian vd cellPixelSize config gaussianKernel) =
     (if vd = [] then None
      else Some (fst (accumulate_spots
        (processCharacterPhysics vd default_subsampleFactor
           (calculateBiquadCoeffs (cfg_filterCutoffX config) (cfg_filterQX config))
           (cfg_filterZ config) (cfg_characterScale config)
           \<lparr> opt_yCoeffs = Some (calculateBiquadCoeffs (cfg_filterCutoffY config) (cfg_filterQY config)),
             opt_xGain = Some (cfg_filterGainX config),
             opt_yGain = Some (cfg_filterGainY config) \<rparr>)
        cellPixelSize config gaussianKernel)))"
proof -
  have b: "r_buffer (fst (accumulate_spots positions cellPixelSize config gaussianKernel)) =
     fold (\<lambda>p buf. accumulateGaussian buf \<lceil>cellPixelSize\<rceil> \<lceil>cellPixelSize\<rceil>
                      (fst (scaledToCanvas (fp_x p) (fp_y p) cellPixelSize (cfg_characterScale config)
                              (cfg_originOffsetX config) (cfg_originOffsetY config)))
                      (snd (scaledToCanvas (fp_x p) (fp_y p) cellPixelSize (cfg_characterScale config)
                              (cfg_originOffsetX config) (cfg_originOffsetY config)))
                      (fp_z p * cfg_brightness config * (1\<^sup>2 / (cfg_beamWidth config * (1 / 2))\<^sup>2))
                      (fst (getGaussianKernel (cfg_beamWidth config * (1 / 2)) gaussianKernel)))
       (filter (\<lambda>p. beamThreshold \<le> fp_z p) positions)
       (replicate (nat (\<lceil>cellPixelSize\<rceil> * \<lceil>cellPixelSize\<rceil>)) 0)"
    by (simp add: accumulate_spots_def Let_def spot_fold_buffer sigmaMult_def power2_eq_square
        split: prod.splits)
  have c: "r_calls (fst (accumulate_spots positions cellPixelSize config gaussianKernel)) =
     map (\<lambda>p. (fst (scaledToCanvas (fp_x p) (fp_y p) cellPixelSize (cfg_characterScale config)
                      (cfg_originOffsetX config) (cfg_originOffsetY config)),
               snd (scaledToCanvas (fp_x p) (fp_y p) cellPixelSize (cfg_characterScale config)
                      (cfg_originOffsetX config) (cfg_originOffsetY config)),
               fp_z p * cfg_brightness config * (1\<^sup>2 / (cfg_beamWidth config * (1 / 2))\<^sup>2)))
       (filter (\<lambda>p. beamThreshold \<le> fp_z p) positions)"
    by (simp add: accumulate_spots_def Let_def spot_fold_calls sigmaMult_def power2_eq_square
        split: prod.splits)
  have r: "fst (renderCharacterGaussian vd cellPixelSize config gaussianKernel) =
     (if vd = [] then None
      else Some (fst (accumulate_spots
        (processCharacterPhysics vd default_subsampleFactor
           (calculateBiquadCoeffs (cfg_filterCutoffX config) (cfg_filterQX config))
           (cfg_filterZ config) (cfg_characterScale config)
           \<lparr> opt_yCoeffs = Some (calculateBiquadCoeffs (cfg_filterCutoffY config) (cfg_filterQY config)),
             opt_xGain = Some (cfg_filterGainX config),
             opt_yGain = Some (cfg_filterGainY config) \<rparr>)
        cellPixelSize config gaussianKernel)))"
    by (simp add: renderCharacterGaussian_def Let_def split: prod.splits)
  from b c r show ?thesis by (intro conjI)
qed

text \<open>A kernel and a spot evaluated by hand, for the witness.\<close>

lemma kernel_third:
  "k_weights (compute_kernel (1 / 3) 1) =
     [exp (- 9), exp (- (9 / 2)), exp (- 9), exp (- (9 / 2)), 1, exp (- (9 / 2)),
      exp (- 9), exp (- (9 / 2)), exp (- 9)]"
  by (simp add: compute_kernel_def kernel_weight_step_def f32_write_def Let_def upto.simps
      numeral_eq_Suc)

lemma spot_third:
  "accumulateGaussian [0, 0, 0, 0] 2 2 1 1 (9 / 4)
     \<lparr>k_weights = [exp (- 9), exp (- (9 / 2)), exp (- 9), exp (- (9 / 2)), 1, exp (- (9 / 2)),
        exp (- 9), exp (- (9 / 2)), exp (- 9)], k_radius = 1, k_sigma = 1 / 3\<rparr> =
     [9 / 4 * exp (- 9), 9 / 4 * exp (- (9 / 2)), 9 / 4 * exp (- (9 / 2)), 9 / 4]"
  by (simp add: accumulateGaussian_def accumulateGaussian_run_def accumulate_row_def
      accumulate_px_def add_at_def f32_write_def f32_read_def Let_def upto.simps)

theorem spot_intensity_normalised_witness:
  "cfg_beamWidth \<lparr>cfg_characterScale = 1, cfg_originOffsetX = 0, cfg_originOffsetY = 0, cfg_beamWidth = 2 / 3,
         cfg_brightness = 1 / 2, cfg_filterCutoffX = 3 / 1000, cfg_filterCutoffY = 3 / 1000,
         cfg_filterQX = 3 / 4, cfg_filterQY = 3 / 4, cfg_filterGainX = 1, cfg_filterGainY = 1,
         cfg_filterZ = 39 / 40\<rparr> \<noteq> 0 \<and>
   cfg_characterScale \<lparr>cfg_characterScale = 1, cfg_originOffsetX = 0, cfg_originOffsetY = 0, cfg_beamWidth = 2 / 3,
         cfg_brightness = 1 / 2, cfg_filterCutoffX = 3 / 1000, cfg_filterCutoffY = 3 / 1000,
         cfg_filterQX = 3 / 4, cfg_filterQY = 3 / 4, cfg_filterGainX = 1, cfg_filterGainY = 1,
         cfg_filterZ = 39 / 40\<rparr> \<noteq> 0 \<and>
   r_buffer (fst (accumulate_spots [\<lparr>fp_x = 4, fp_y = 4, fp_z = 1 / 2\<rparr>, \<lparr>fp_x = 0, fp_y = 0, fp_z = 1 / 1000\<rparr>] 2 \<lparr>cfg_characterScale = 1, cfg_originOffsetX = 0, cfg_originOffsetY = 0, cfg_beamWidth = 2 / 3,
         cfg_brightness = 1 / 2, cfg_filterCutoffX = 3 / 1000, cfg_filterCutoffY = 3 / 1000,
         cfg_filterQX = 3 / 4, cfg_filterQY = 3 / 4, cfg_filterGainX = 1, cfg_filterGainY = 1,
         cfg_filterZ = 39 / 40\<rparr> None)) =
     [9 / 4 * exp (- 9), 9 / 4 * exp (- (9 / 2)), 9 / 4 * exp (- (9 / 2)), 9 / 4] \<and>
   r_calls (fst (accumulate_spots [\<lparr>fp_x = 4, fp_y = 4, fp_z = 1 / 2\<rparr>, \<lparr>fp_x = 0, fp_y = 0, fp_z = 1 / 1000\<rparr>] 2 \<lparr>cfg_characterScale = 1, cfg_originOffsetX = 0, cfg_originOffsetY = 0, cfg_beamWidth = 2 / 3,
         cfg_brightness = 1 / 2, cfg_filterCutoffX = 3 / 1000, cfg_filterCutoffY = 3 / 1000,
         cfg_filterQX = 3 / 4, cfg_filterQY = 3 / 4, cfg_filterGainX = 1, cfg_filterGainY = 1,
         cfg_filterZ = 39 / 40\<rparr> None)) = [(1, 1, 9 / 4)]"
proof -
  let ?cfg = "\<lparr>cfg_characterScale = 1, cfg_originOffsetX = 0, cfg_originOffsetY = 0, cfg_beamWidth = 2 / 3,
         cfg_brightness = 1 / 2, cfg_filterCutoffX = 3 / 1000, cfg_filterCutoffY = 3 / 1000,
         cfg_filterQX = 3 / 4, cfg_filterQY = 3 / 4, cfg_filterGainX = 1, cfg_filterGainY = 1,
         cfg_filterZ = 39 / 40\<rparr>"
  let ?pos = "[\<lparr>fp_x = 4, fp_y = 4, fp_z = 1 / 2\<rparr>, \<lparr>fp_x = 0, fp_y = 0, fp_z = 1 / 1000\<rparr>]"
  have bw: "cfg_beamWidth ?cfg \<noteq> 0" by simp
  have cs: "cfg_characterScale ?cfg \<noteq> 0" by simp
  note t = spot_intensity_normalised [OF bw cs, where positions = ?pos and cellPixelSize = 2
      and gaussianKernel = None]
  have k: "fst (getGaussianKernel (1 / 3) None) =
      \<lparr>k_weights = [exp (- 9), exp (- (9 / 2)), exp (- 9), exp (- (9 / 2)), 1, exp (- (9 / 2)),
        exp (- 9), exp (- (9 / 2)), exp (- 9)], k_radius = 1, k_sigma = 1 / 3\<rparr>"
    using kernel_third
    by (simp add: getGaussianKernel_def sigmasCoverage_def Let_def compute_kernel_def)
  have c: "scaledToCanvas 4 4 2 1 0 0 = (1, 1)"
    by (simp add: scaledToCanvas_def BASE_CELL_SIZE_def)
  from t have "r_buffer (fst (accumulate_spots ?pos 2 ?cfg None)) =
      accumulateGaussian [0, 0, 0, 0] 2 2 1 1 (9 / 4) (fst (getGaussianKernel (1 / 3) None))"
    by (simp add: beamThreshold_def c power2_eq_square numeral_eq_Suc)
  then have b: "r_buffer (fst (accumulate_spots ?pos 2 ?cfg None)) =
      [9 / 4 * exp (- 9), 9 / 4 * exp (- (9 / 2)), 9 / 4 * exp (- (9 / 2)), 9 / 4]"
    by (simp only: k spot_third)
  from t have l: "r_calls (fst (accumulate_spots ?pos 2 ?cfg None)) = [(1, 1, 9 / 4)]"
    by (simp add: beamThreshold_def c power2_eq_square)
  from bw cs b l show ?thesis by (intro conjI)
qed

end
